theory Spec2Isabelle
  imports Main "HOL-Library.Sublist"
begin

section \<open>Strings, paths and the file system\<close>

text \<open>
  JavaScript strings are modelled as \<^typ>\<open>string\<close>, one \<^typ>\<open>char\<close> per code unit; the scripts
  only compare, search and concatenate them.  Paths are POSIX paths.
\<close>

definition endsWith :: "string \<Rightarrow> string \<Rightarrow> bool" where
  "endsWith s suf = suffix suf s"

definition startsWith :: "string \<Rightarrow> string \<Rightarrow> bool" where
  "startsWith s pre = prefix pre s"

text \<open>\<^verbatim>\<open>path.basename\<close>: trailing slashes are dropped, then the last component is taken.\<close>

definition basename :: "string \<Rightarrow> string" where
  "basename p = rev (takeWhile (\<lambda>c. c \<noteq> CHR ''/'') (dropWhile (\<lambda>c. c = CHR ''/'') (rev p)))"

text \<open>
  \<^verbatim>\<open>path.join(ARTICLES_DIR, file)\<close> for an entry name returned by \<^verbatim>\<open>readdir\<close> (a single
  path component): the leading \<^verbatim>\<open>./\<close> of \<^verbatim>\<open>./articles\<close> is normalised away.
\<close>

definition ARTICLES_DIR :: string where
  "ARTICLES_DIR = ''./articles''"

definition ARTICLES_JSON_PATH :: string where
  "ARTICLES_JSON_PATH = ''./articles.json''"

definition path_join_articles :: "string \<Rightarrow> string" where
  "path_join_articles file = ''articles/'' @ file"

text \<open>
  The file system as the scripts see it through \<^verbatim>\<open>fs.promises\<close>: \<^verbatim>\<open>readdir\<close> of a directory
  (\<open>None\<close>: the call rejects), \<^verbatim>\<open>readFile\<close> of a path (\<open>None\<close>: the call rejects) and
  \<^verbatim>\<open>writeFile\<close>, which rejects on a path that cannot be written.  The scripts only create
  files in the working directory and overwrite article files that exist, so a write
  never changes the listing of \<^verbatim>\<open>./articles\<close>.  The field \<open>journal\<close> records every
  completed \<^verbatim>\<open>writeFile\<close> call (path and content), oldest first.
\<close>

record filesystem =
  dirs :: "string \<rightharpoonup> string list"
  files :: "string \<rightharpoonup> string"
  readonly :: "string \<Rightarrow> bool"
  journal :: "(string \<times> string) list"

datatype message =
    ReaddirFailed string
  | ReadFileFailed string
  | WriteFileFailed string
  | InvalidURL string
  | FetchFailed string

definition readdir :: "filesystem \<Rightarrow> string \<Rightarrow> message + string list" where
  "readdir fsys d = (case dirs fsys d of None \<Rightarrow> Inl (ReaddirFailed d) | Some names \<Rightarrow> Inr names)"

definition readFile :: "filesystem \<Rightarrow> string \<Rightarrow> message + string" where
  "readFile fsys p = (case files fsys p of None \<Rightarrow> Inl (ReadFileFailed p) | Some c \<Rightarrow> Inr c)"

definition writeFile :: "filesystem \<Rightarrow> string \<Rightarrow> string \<Rightarrow> message + filesystem" where
  "writeFile fsys p c =
     (if readonly fsys p then Inl (WriteFileFailed p)
      else Inr (fsys\<lparr>files := (files fsys)(p \<mapsto> c), journal := journal fsys @ [(p, c)]\<rparr>))"

text \<open>What \<^verbatim>\<open>console.error\<close> receives, and the state of the running process.\<close>

datatype console_error =
    ExtractError string message
  | RegenerateError message
  | ValidateError string message
  | FatalError message

record process =
  fs :: filesystem
  stderr :: "console_error list"
  exitCode :: "nat option"

section \<open>Metadata Extractor (watch-articles.js)\<close>

text \<open>
  \<^verbatim>\<open>getMeta\<close> builds the regular expression
  \<^verbatim>\<open><meta name="NAME" content="([^"]*)"\<close> with flag \<^verbatim>\<open>i\<close> and takes the first match.
  Every name it is called with is free of regular-expression syntax, so the part before
  the group is a literal matched without regard to ASCII case; the group is the longest
  run of non-quote characters, and it must be followed by a quote.
\<close>

definition to_lower :: "char \<Rightarrow> char" where
  "to_lower c = (let n = (of_char c :: nat) in if 65 \<le> n \<and> n \<le> 90 then char_of (n + 32) else c)"

fun match_ci :: "string \<Rightarrow> string \<Rightarrow> string option" where
  "match_ci [] s = Some s"
| "match_ci (p # ps) [] = None"
| "match_ci (p # ps) (c # cs) = (if to_lower p = to_lower c then match_ci ps cs else None)"

definition dquote :: char where
  "dquote = CHR 0x22"

definition backslash :: char where
  "backslash = CHR 0x5C"

definition meta_match_here :: "string \<Rightarrow> string \<Rightarrow> string option" where
  "meta_match_here pat s =
     (case match_ci pat s of
        None \<Rightarrow> None
      | Some rest \<Rightarrow>
          (if dropWhile (\<lambda>c. c \<noteq> dquote) rest = [] then None
           else Some (takeWhile (\<lambda>c. c \<noteq> dquote) rest)))"

fun meta_search :: "string \<Rightarrow> string \<Rightarrow> string option" where
  "meta_search pat [] = meta_match_here pat []"
| "meta_search pat (c # cs) =
     (case meta_match_here pat (c # cs) of
        Some v \<Rightarrow> Some v
      | None \<Rightarrow> meta_search pat cs)"

definition getMeta :: "string \<Rightarrow> string \<Rightarrow> string" where
  "getMeta content name =
     (case meta_search (''<meta name='' @ [dquote] @ name @ [dquote] @ '' content='' @ [dquote]) content of
        Some v \<Rightarrow> v
      | None \<Rightarrow> [])"

record ArticleRecord =
  id' :: string
  title :: string
  filename :: string
  category :: string
  author :: string
  publishDate :: string
  readTime :: string
  excerpt :: string
  thumbnailImage :: string
  bannerImage :: string
  sourceUrl :: string
  isTrending :: bool
  isVideo :: bool
  videoUrl :: string
  isJob :: bool

definition metadata_of :: "string \<Rightarrow> string \<Rightarrow> ArticleRecord" where
  "metadata_of filePath content =
     \<lparr> id' = getMeta content ''article-id'',
       title = getMeta content ''og:title'',
       filename = basename filePath,
       category = getMeta content ''article-category'',
       author = getMeta content ''article-author'',
       publishDate = getMeta content ''article-date'',
       readTime = getMeta content ''article-readtime'',
       excerpt = getMeta content ''description'',
       thumbnailImage = getMeta content ''og:image'',
       bannerImage = getMeta content ''og:image'',
       sourceUrl = getMeta content ''article-source'',
       isTrending = (getMeta content ''article-trending'' = ''true''),
       isVideo = (getMeta content ''article-video'' = ''true''),
       videoUrl = getMeta content ''article-video-url'',
       isJob = False \<rparr>"

text \<open>
  \<^verbatim>\<open>extractMetadataFromHTML\<close>: \<open>Inl e\<close> is the \<^verbatim>\<open>catch\<close> branch, which logs \<open>e\<close> and
  returns \<^verbatim>\<open>null\<close>.
\<close>

definition extractMetadataFromHTML :: "filesystem \<Rightarrow> string \<Rightarrow> console_error + ArticleRecord" where
  "extractMetadataFromHTML fsys filePath =
     (case readFile fsys filePath of
        Inl e \<Rightarrow> Inl (ExtractError filePath e)
      | Inr content \<Rightarrow> Inr (metadata_of filePath content))"


section \<open>Index Builder (watch-articles.js)\<close>

text \<open>
  \<^verbatim>\<open>Array.prototype.sort\<close> with a comparison function.  The function's result is a number
  or \<^verbatim>\<open>NaN\<close> (\<open>None\<close>); ECMAScript's \<^verbatim>\<open>SortCompare\<close> reads \<^verbatim>\<open>NaN\<close> as \<open>+0\<close>.  The sort is
  stable.  It is written here as a stable insertion sort; for a comparison function that
  is not consistent (one that returns \<^verbatim>\<open>NaN\<close> for some pairs only) ECMAScript leaves the
  resulting order to the implementation, and the order computed here need not be the one
  a given engine computes; for such a function only the facts that the result is a
  rearrangement of the input and a function of it are used below.
\<close>

type_synonym 'a comparefn = "'a \<Rightarrow> 'a \<Rightarrow> int option"

definition SortCompare :: "'a comparefn \<Rightarrow> 'a \<Rightarrow> 'a \<Rightarrow> int" where
  "SortCompare f x y = (case f x y of None \<Rightarrow> 0 | Some v \<Rightarrow> v)"

fun sort_insert :: "'a comparefn \<Rightarrow> 'a \<Rightarrow> 'a list \<Rightarrow> 'a list" where
  "sort_insert f x [] = [x]"
| "sort_insert f x (y # ys) =
     (if SortCompare f x y \<le> 0 then x # y # ys else y # sort_insert f x ys)"

definition Array_sort :: "'a comparefn \<Rightarrow> 'a list \<Rightarrow> 'a list" where
  "Array_sort f xs = foldr (sort_insert f) xs []"

text \<open>
  \<^verbatim>\<open>new Date(s)\<close> is a parameter \<open>parse\<close>: the time value of \<open>s\<close> in milliseconds since
  the epoch, \<open>None\<close> for an Invalid Date (whose number value is \<^verbatim>\<open>NaN\<close>).  The comparison
  function is \<^verbatim>\<open>(a, b) => new Date(b.publishDate || '1970-01-01') - new Date(a.publishDate || '1970-01-01')\<close>.
\<close>

type_synonym date_parser = "string \<Rightarrow> int option"

definition dateOf :: "date_parser \<Rightarrow> ArticleRecord \<Rightarrow> int option" where
  "dateOf parse a = parse (if publishDate a = [] then ''1970-01-01'' else publishDate a)"

definition newest_first :: "date_parser \<Rightarrow> ArticleRecord comparefn" where
  "newest_first parse a b =
     (case (dateOf parse b, dateOf parse a) of
        (Some dateB, Some dateA) \<Rightarrow> Some (dateB - dateA)
      | _ \<Rightarrow> None)"

text \<open>
  The loop over \<^verbatim>\<open>htmlFiles\<close>: a record is pushed when extraction returned a record
  whose \<^verbatim>\<open>id\<close> is a non-empty string; the second component collects what the
  extractor logged.
\<close>

fun scan_articles ::
  "filesystem \<Rightarrow> string list \<Rightarrow> ArticleRecord list \<Rightarrow> console_error list
     \<Rightarrow> ArticleRecord list \<times> console_error list" where
  "scan_articles fsys [] articlesMetadata errs = (articlesMetadata, errs)"
| "scan_articles fsys (file # rest) articlesMetadata errs =
     (case extractMetadataFromHTML fsys (path_join_articles file) of
        Inl e \<Rightarrow> scan_articles fsys rest articlesMetadata (errs @ [e])
      | Inr metadata \<Rightarrow>
          scan_articles fsys rest
            (if id' metadata \<noteq> [] then articlesMetadata @ [metadata] else articlesMetadata) errs)"

definition htmlFiles_of :: "string list \<Rightarrow> string list" where
  "htmlFiles_of names = filter (\<lambda>f. endsWith f ''.html'') names"

text \<open>The sorted list of records that is serialised as the index.\<close>

definition index_records :: "date_parser \<Rightarrow> filesystem \<Rightarrow> string list \<Rightarrow> ArticleRecord list" where
  "index_records parse fsys names =
     Array_sort (newest_first parse) (fst (scan_articles fsys (htmlFiles_of names) [] []))"

text \<open>
  \<^verbatim>\<open>JSON.stringify({ articles: articlesMetadata }, null, 2)\<close>, for code units below 256:
  ECMAScript's \<^verbatim>\<open>QuoteJSONString\<close>, the properties of a record in the order in which the
  extractor creates them, and an indentation of two spaces per level.
\<close>

definition newline :: char where
  "newline = CHR 0x0A"

definition is_control :: "char \<Rightarrow> bool" where
  "is_control c = ((of_char c :: nat) < 32)"

definition control_escape :: "char \<Rightarrow> string" where
  "control_escape c =
     (let n = (of_char c :: nat) in
      if n = 8 then [backslash, CHR ''b'']
      else if n = 9 then [backslash, CHR ''t'']
      else if n = 10 then [backslash, CHR ''n'']
      else if n = 12 then [backslash, CHR ''f'']
      else if n = 13 then [backslash, CHR ''r'']
      else [backslash, CHR ''u'', CHR ''0'', CHR ''0'',
            ''0123456789abcdef'' ! (n div 16), ''0123456789abcdef'' ! (n mod 16)])"

definition json_escape :: "char \<Rightarrow> string" where
  "json_escape c =
     (if c = dquote then [backslash, dquote]
      else if c = backslash then [backslash, backslash]
      else if is_control c then control_escape c
      else [c])"

definition QuoteJSONString :: "string \<Rightarrow> string" where
  "QuoteJSONString s = [dquote] @ concat (map json_escape s) @ [dquote]"

fun join_str :: "string \<Rightarrow> string list \<Rightarrow> string" where
  "join_str sep [] = []"
| "join_str sep [p] = p"
| "join_str sep (p # q # ps) = p @ sep @ join_str sep (q # ps)"

definition json_string_property :: "string \<Rightarrow> string \<Rightarrow> string" where
  "json_string_property key v = QuoteJSONString key @ '': '' @ QuoteJSONString v"

definition json_bool_property :: "string \<Rightarrow> bool \<Rightarrow> string" where
  "json_bool_property key b = QuoteJSONString key @ '': '' @ (if b then ''true'' else ''false'')"

definition json_article :: "ArticleRecord \<Rightarrow> string" where
  "json_article a =
     ''{'' @ [newline] @ ''      '' @
     join_str ('','' @ [newline] @ ''      '')
       [json_string_property ''id'' (id' a),
        json_string_property ''title'' (title a),
        json_string_property ''filename'' (filename a),
        json_string_property ''category'' (category a),
        json_string_property ''author'' (author a),
        json_string_property ''publishDate'' (publishDate a),
        json_string_property ''readTime'' (readTime a),
        json_string_property ''excerpt'' (excerpt a),
        json_string_property ''thumbnailImage'' (thumbnailImage a),
        json_string_property ''bannerImage'' (bannerImage a),
        json_string_property ''sourceUrl'' (sourceUrl a),
        json_bool_property ''isTrending'' (isTrending a),
        json_bool_property ''isVideo'' (isVideo a),
        json_string_property ''videoUrl'' (videoUrl a),
        json_bool_property ''isJob'' (isJob a)]
     @ [newline] @ ''    }''"

definition JSON_stringify_articles :: "ArticleRecord list \<Rightarrow> string" where
  "JSON_stringify_articles rs =
     (if rs = [] then ''{'' @ [newline] @ ''  '' @ QuoteJSONString ''articles'' @ '': []'' @ [newline] @ ''}''
      else ''{'' @ [newline] @ ''  '' @ QuoteJSONString ''articles'' @ '': ['' @ [newline] @ ''    ''
           @ join_str ('','' @ [newline] @ ''    '') (map json_article rs)
           @ [newline] @ ''  ]'' @ [newline] @ ''}'')"

text \<open>
  \<^verbatim>\<open>regenerateArticlesJSON\<close>.  The serialiser is a parameter \<open>stringify\<close>, for which
  \<open>JSON_stringify_articles\<close> is meant.  The \<^verbatim>\<open>catch\<close> branch logs and returns; the
  function never calls \<^verbatim>\<open>process.exit\<close>.
\<close>

definition regenerateArticlesJSON ::
  "date_parser \<Rightarrow> (ArticleRecord list \<Rightarrow> string) \<Rightarrow> process \<Rightarrow> process" where
  "regenerateArticlesJSON parse stringify st =
     (case readdir (fs st) ARTICLES_DIR of
        Inl e \<Rightarrow> st\<lparr>stderr := stderr st @ [RegenerateError e]\<rparr>
      | Inr names \<Rightarrow>
          (let st1 = st\<lparr>stderr := stderr st @ snd (scan_articles (fs st) (htmlFiles_of names) [] [])\<rparr>
           in case writeFile (fs st1) ARTICLES_JSON_PATH (stringify (index_records parse (fs st) names)) of
                Inl e \<Rightarrow> st1\<lparr>stderr := stderr st1 @ [RegenerateError e]\<rparr>
              | Inr fsys' \<Rightarrow> st1\<lparr>fs := fsys'\<rparr>))"


section \<open>Directory Watcher (watch-articles.js)\<close>

text \<open>
  Time is counted in milliseconds.  The timer table holds the timers that were set and
  have neither fired nor been cleared, each with its handle and the time it is due; a
  timer fires when the clock reaches its due time.  \<open>rebuilds\<close> lists the times at which
  \<^verbatim>\<open>regenerateArticlesJSON\<close> was invoked.  The variable \<^verbatim>\<open>regenerateTimeout\<close> keeps the
  last handle, also after that timer has fired.
\<close>

record watcher =
  now :: nat
  pending :: "(nat \<times> nat) list"
  next_handle :: nat
  regenerateTimeout :: "nat option"
  rebuilds :: "nat list"

definition setTimeout :: "nat \<Rightarrow> watcher \<Rightarrow> nat \<times> watcher" where
  "setTimeout delay w =
     (next_handle w,
      w\<lparr>pending := pending w @ [(next_handle w, now w + delay)], next_handle := Suc (next_handle w)\<rparr>)"

definition clearTimeout :: "nat \<Rightarrow> watcher \<Rightarrow> watcher" where
  "clearTimeout h w = w\<lparr>pending := filter (\<lambda>t. fst t \<noteq> h) (pending w)\<rparr>"

definition scheduleRegeneration :: "watcher \<Rightarrow> watcher" where
  "scheduleRegeneration w =
     (let w1 = (case regenerateTimeout w of Some h \<Rightarrow> clearTimeout h w | None \<Rightarrow> w);
          (h, w2) = setTimeout 1000 w1
      in w2\<lparr>regenerateTimeout := Some h\<rparr>)"

text \<open>
  Letting the clock run to time \<open>t\<close>: every pending timer due by then fires, earliest
  first, and its callback invokes the rebuild.
\<close>

definition run_until :: "nat \<Rightarrow> watcher \<Rightarrow> watcher" where
  "run_until t w =
     w\<lparr>now := max (now w) t,
       rebuilds := rebuilds w @ sort (map snd (filter (\<lambda>tm. snd tm \<le> t) (pending w))),
       pending := filter (\<lambda>tm. \<not> snd tm \<le> t) (pending w)\<rparr>"

datatype fs_event = Add string | Change string | Unlink string | WatchError | Ready

fun on_event :: "fs_event \<Rightarrow> watcher \<Rightarrow> watcher" where
  "on_event (Add filePath) w = (if endsWith filePath ''.html'' then scheduleRegeneration w else w)"
| "on_event (Change filePath) w = (if endsWith filePath ''.html'' then scheduleRegeneration w else w)"
| "on_event (Unlink filePath) w = (if endsWith filePath ''.html'' then scheduleRegeneration w else w)"
| "on_event WatchError w = w"
| "on_event Ready w = w\<lparr>rebuilds := rebuilds w @ [now w]\<rparr>"

fun qualifying :: "fs_event \<Rightarrow> bool" where
  "qualifying (Add filePath) = endsWith filePath ''.html''"
| "qualifying (Change filePath) = endsWith filePath ''.html''"
| "qualifying (Unlink filePath) = endsWith filePath ''.html''"
| "qualifying WatchError = False"
| "qualifying Ready = False"

text \<open>The watcher receiving the events of a list, each at its time, in order.\<close>

fun deliver :: "(nat \<times> fs_event) list \<Rightarrow> watcher \<Rightarrow> watcher" where
  "deliver [] w = w"
| "deliver ((t, e) # rest) w = deliver rest (on_event e (run_until t w))"

text \<open>The state \<^verbatim>\<open>startWatcher\<close> begins with: no timer has been set, nothing has been rebuilt.\<close>

definition startWatcher :: watcher where
  "startWatcher = \<lparr>now = 0, pending = [], next_handle = 0, regenerateTimeout = None, rebuilds = []\<rparr>"

text \<open>
  Each event of the list arrives less than the debounce window (1000 ms) after the one
  before it.
\<close>

fun within_window :: "nat list \<Rightarrow> bool" where
  "within_window [] = True"
| "within_window [t] = True"
| "within_window (t # t' # ts) = (t \<le> t' \<and> t' < t + 1000 \<and> within_window (t' # ts))"


section \<open>Liveness Checker (validate-urls.js)\<close>

text \<open>
  The network is a parameter: what \<^verbatim>\<open>fetch\<close> with \<^verbatim>\<open>redirect: 'follow'\<close> and the abort
  timer yields for a method and a URL within one run.  \<open>Inr r\<close> is the response reached
  after redirects; \<open>Inl e\<close> is a rejected promise (network error, invalid URL, or abort on
  timeout).  \<^verbatim>\<open>response.ok\<close> is node-fetch's: the status lies in 200..299.
\<close>

datatype http_method = HEAD | GET

record response =
  res_status :: nat
  res_redirected :: bool
  res_url :: string

definition response_ok :: "response \<Rightarrow> bool" where
  "response_ok r = (200 \<le> res_status r \<and> res_status r < 300)"

type_synonym network = "http_method \<Rightarrow> string \<Rightarrow> message + response"

record check_result =
  url :: string
  status :: nat
  ok :: bool
  redirected :: "bool option"
  finalUrl :: "string option"
  error :: "message option"

definition from_response :: "string \<Rightarrow> response \<Rightarrow> check_result" where
  "from_response u r =
     \<lparr>url = u, status = res_status r, ok = response_ok r,
      redirected = Some (res_redirected r), finalUrl = Some (res_url r), error = None\<rparr>"

text \<open>\<^verbatim>\<open>checkURL\<close>, returning also the list of requests it issued.\<close>

definition checkURL_traced :: "network \<Rightarrow> string \<Rightarrow> http_method list \<times> check_result" where
  "checkURL_traced net u =
     (case net HEAD u of
        Inr r \<Rightarrow> ([HEAD], from_response u r)
      | Inl headError \<Rightarrow>
          (case net GET u of
             Inr r \<Rightarrow> ([HEAD, GET], from_response u r)
           | Inl getError \<Rightarrow>
               ([HEAD, GET],
                \<lparr>url = u, status = 0, ok = False, redirected = None, finalUrl = None,
                 error = Some getError\<rparr>)))"

definition checkURL :: "network \<Rightarrow> string \<Rightarrow> check_result" where
  "checkURL net u = snd (checkURL_traced net u)"

section \<open>Replacement Finder (validate-urls.js)\<close>

text \<open>
  \<^verbatim>\<open>String.prototype.replace\<close> with a string pattern replaces the first occurrence.  The
  replacement texts used here contain no \<^verbatim>\<open>$\<close>, so they are inserted as they are.
\<close>

fun replace_first :: "string \<Rightarrow> string \<Rightarrow> string \<Rightarrow> string" where
  "replace_first pat rep [] = (if pat = [] then rep else [])"
| "replace_first pat rep (c # cs) =
     (if prefix pat (c # cs) then rep @ drop (length pat) (c # cs)
      else c # replace_first pat rep cs)"

text \<open>\<^verbatim>\<open>originalUrl.replace(/https?:\/\//, 'https://www.')\<close>: the first match is replaced.\<close>

fun replace_scheme_www :: "string \<Rightarrow> string" where
  "replace_scheme_www [] = []"
| "replace_scheme_www (c # cs) =
     (if prefix ''https://'' (c # cs) then ''https://www.'' @ drop 8 (c # cs)
      else if prefix ''http://'' (c # cs) then ''https://www.'' @ drop 7 (c # cs)
      else c # replace_scheme_www cs)"

definition variations :: "string \<Rightarrow> string list" where
  "variations originalUrl =
     [replace_first ''https://'' ''http://'' originalUrl,
      replace_first ''www.'' [] originalUrl,
      replace_scheme_www originalUrl,
      ''https://web.archive.org/web/*/'' @ originalUrl]"

text \<open>
  The loop over the variations; the first component lists the variations that were
  passed to \<^verbatim>\<open>checkURL\<close>, the second is \<^verbatim>\<open>result.finalUrl || variation\<close> of the first
  accepted one.
\<close>

fun try_variations :: "network \<Rightarrow> string \<Rightarrow> string list \<Rightarrow> string list \<times> string option" where
  "try_variations net originalUrl [] = ([], None)"
| "try_variations net originalUrl (variation # rest) =
     (if variation = originalUrl then try_variations net originalUrl rest
      else
        (let result = checkURL net variation in
         if ok result
         then ([variation],
               Some (case finalUrl result of
                       Some u \<Rightarrow> if u \<noteq> [] then u else variation
                     | None \<Rightarrow> variation))
         else (variation # fst (try_variations net originalUrl rest),
               snd (try_variations net originalUrl rest))))"

text \<open>
  \<^verbatim>\<open>encodeURIComponent\<close> on code units below 256: the unreserved characters stay, every
  other one becomes the percent-escapes of its UTF-8 bytes.
\<close>

definition unreserved :: "char \<Rightarrow> bool" where
  "unreserved c =
     (let n = (of_char c :: nat) in
      (48 \<le> n \<and> n \<le> 57) \<or> (65 \<le> n \<and> n \<le> 90) \<or> (97 \<le> n \<and> n \<le> 122)
      \<or> c \<in> set (''-_.!~*()'' @ [CHR 0x27]))"

definition hexdigit :: "nat \<Rightarrow> char" where
  "hexdigit n = ''0123456789ABCDEF'' ! (n mod 16)"

definition percent :: "nat \<Rightarrow> string" where
  "percent b = [CHR ''%'', hexdigit (b div 16), hexdigit b]"

definition encodeURIComponent :: "string \<Rightarrow> string" where
  "encodeURIComponent s =
     concat (map (\<lambda>c. let n = (of_char c :: nat) in
                       if unreserved c then [c]
                       else if n < 128 then percent n
                       else percent (192 + n div 64) @ percent (128 + n mod 64)) s)"

text \<open>
  \<^verbatim>\<open>new URL(originalUrl).hostname\<close> is a parameter: \<open>Inl e\<close> when the constructor throws.
  The three shapes of the returned object are the three constructors.
\<close>

type_synonym url_parser = "string \<Rightarrow> message + string"

datatype replacement =
    Found string
  | NotFound "string list"
  | NotFoundError message

definition findReplacementURL_traced ::
  "url_parser \<Rightarrow> network \<Rightarrow> string \<Rightarrow> string \<Rightarrow> string list \<times> replacement" where
  "findReplacementURL_traced hostname net originalUrl context =
     (case hostname originalUrl of
        Inl e \<Rightarrow> ([], NotFoundError e)
      | Inr domain \<Rightarrow>
          (case try_variations net originalUrl (variations originalUrl) of
             (tried, Some new) \<Rightarrow> (tried, Found new)
           | (tried, None) \<Rightarrow>
               (tried,
                NotFound
                  [''Search Google: https://www.google.com/search?q=''
                     @ encodeURIComponent (domain @ '' '' @ context),
                   ''Archive: https://web.archive.org/web/*/'' @ originalUrl])))"

definition findReplacementURL :: "url_parser \<Rightarrow> network \<Rightarrow> string \<Rightarrow> string \<Rightarrow> replacement" where
  "findReplacementURL hostname net originalUrl context =
     snd (findReplacementURL_traced hostname net originalUrl context)"


section \<open>Reconciler (validate-urls.js)\<close>

text \<open>
  \<^verbatim>\<open>extractURLs\<close>.  The HTML parser is a parameter: for a document and one of the three
  selectors \<^verbatim>\<open>img[src]\<close>, \<^verbatim>\<open>a[href]\<close>, \<^verbatim>\<open>iframe[src]\<close> it gives the attribute values of the
  matching elements in document order.  The \<^verbatim>\<open>Set\<close> keeps the first insertion of a value.
\<close>

datatype selector = Img_src | A_href | Iframe_src

type_synonym cheerio = "string \<Rightarrow> selector \<Rightarrow> string list"

definition is_http :: "string \<Rightarrow> bool" where
  "is_http s = (s \<noteq> [] \<and> (startsWith s ''http://'' \<or> startsWith s ''https://''))"

definition set_add :: "string list \<Rightarrow> string \<Rightarrow> string list" where
  "set_add seen x = (if x \<in> set seen then seen else seen @ [x])"

definition extractURLs :: "cheerio \<Rightarrow> string \<Rightarrow> string list" where
  "extractURLs load html =
     foldl set_add []
       (filter is_http (load html Img_src) @ filter is_http (load html A_href)
          @ filter is_http (load html Iframe_src))"

text \<open>
  \<^verbatim>\<open>replaceURL\<close>.  The old URL is escaped with
  \<^verbatim>\<open>oldUrl.replace(/[.*+?^${}()|[\]\\]/g, '\\$&')\<close> and compiled with flag \<^verbatim>\<open>g\<close>.  A pattern in
  which every syntax character is preceded by a backslash matches a literal text;
  \<open>literal_pattern\<close> reads that text off such a pattern and is \<open>None\<close> on any other
  pattern.
\<close>

definition syntax_char :: "char \<Rightarrow> bool" where
  "syntax_char c = (c \<in> set (''.*+?^${}()|[]'' @ [backslash]))"

definition escapeRegExp :: "string \<Rightarrow> string" where
  "escapeRegExp s = concat (map (\<lambda>c. if syntax_char c then [backslash, c] else [c]) s)"

fun literal_pattern :: "string \<Rightarrow> string option" where
  "literal_pattern [] = Some []"
| "literal_pattern [c] = (if syntax_char c then None else Some [c])"
| "literal_pattern (c # d # r) =
     (if c = backslash
      then (if syntax_char d then map_option ((#) d) (literal_pattern r) else None)
      else if syntax_char c then None
      else map_option ((#) c) (literal_pattern (d # r)))"

text \<open>
  ECMAScript's \<^verbatim>\<open>GetSubstitution\<close> for a match without capture groups: in the replacement
  text \<^verbatim>\<open>$$\<close> stands for a dollar sign, \<^verbatim>\<open>$&\<close> for the matched text, \<^verbatim>\<open>$`\<close> for the text
  before the match and \<^verbatim>\<open>$'\<close> for the text after it; any other \<^verbatim>\<open>$\<close> stands for itself.
\<close>

fun GetSubstitution :: "string \<Rightarrow> string \<Rightarrow> string \<Rightarrow> string \<Rightarrow> string" where
  "GetSubstitution matched preceding following [] = []"
| "GetSubstitution matched preceding following [c] = [c]"
| "GetSubstitution matched preceding following (c # d # r) =
     (if c = CHR ''$'' then
        (if d = CHR ''$'' then CHR ''$'' # GetSubstitution matched preceding following r
         else if d = CHR ''&'' then matched @ GetSubstitution matched preceding following r
         else if d = CHR 0x60 then preceding @ GetSubstitution matched preceding following r
         else if d = CHR 0x27 then following @ GetSubstitution matched preceding following r
         else c # GetSubstitution matched preceding following (d # r))
      else c # GetSubstitution matched preceding following (d # r))"

text \<open>
  Replacing every match of a literal, left to right, the search resuming after each
  match (one position further after an empty match).  \<open>preceding\<close> is the text already
  passed, \<open>rest\<close> the text still to be searched.
\<close>

function replace_global :: "string \<Rightarrow> string \<Rightarrow> string \<Rightarrow> string \<Rightarrow> string" where
  "replace_global pat rep preceding rest =
     (if pat \<noteq> [] \<and> prefix pat rest
      then GetSubstitution pat preceding (drop (length pat) rest) rep
             @ replace_global pat rep (preceding @ pat) (drop (length pat) rest)
      else (case rest of
              [] \<Rightarrow> (if pat = [] then GetSubstitution [] preceding [] rep else [])
            | c # cs \<Rightarrow>
                (if pat = [] then GetSubstitution [] preceding rest rep else [])
                  @ c # replace_global pat rep (preceding @ [c]) cs))"
  by pat_completeness auto
termination
  by (relation "measure (\<lambda>(pat, rep, preceding, rest). length rest)") (auto simp: prefix_def)

definition replaceURL :: "string \<Rightarrow> string \<Rightarrow> string \<Rightarrow> string" where
  "replaceURL html oldUrl newUrl =
     (case literal_pattern (escapeRegExp oldUrl) of
        Some lit \<Rightarrow> replace_global lit newUrl [] html
      | None \<Rightarrow> html)"

text \<open>
  Global textual substitution in the words of the specification: the text is cut at the
  occurrences of the old text (\<^verbatim>\<open>String.prototype.split\<close> with a non-empty separator)
  and the pieces are joined with the new text.
\<close>

function split_from :: "string \<Rightarrow> string \<Rightarrow> string \<Rightarrow> string list" where
  "split_from sep piece rest =
     (if sep \<noteq> [] \<and> prefix sep rest
      then piece # split_from sep [] (drop (length sep) rest)
      else (case rest of
              [] \<Rightarrow> [piece]
            | c # cs \<Rightarrow> split_from sep (piece @ [c]) cs))"
  by pat_completeness auto
termination
  by (relation "measure (\<lambda>(sep, piece, rest). length rest)") (auto simp: prefix_def)

definition split_str :: "string \<Rightarrow> string \<Rightarrow> string list" where
  "split_str s sep = split_from sep [] s"

definition global_substitution :: "string \<Rightarrow> string \<Rightarrow> string \<Rightarrow> string" where
  "global_substitution html old new = join_str new (split_str html old)"

text \<open>
  \<^verbatim>\<open>validateArticle\<close>.  The working state of the loop is the \<^verbatim>\<open>results\<close> array, the
  working copy \<^verbatim>\<open>modifiedContent\<close> and \<^verbatim>\<open>fixedCount\<close>.  The URLs are taken in batches of
  \<^verbatim>\<open>MAX_CONCURRENT_CHECKS\<close>; the checks of a batch are all made before the first of them
  is looked at.
\<close>

record url_result =
  result_url :: string
  result_status :: nat
  fixed :: bool
  newUrl :: "string option"

record working =
  results :: "url_result list"
  modifiedContent :: string
  fixedCount :: nat

definition MAX_CONCURRENT_CHECKS :: nat where
  "MAX_CONCURRENT_CHECKS = 5"

definition process_check ::
  "url_parser \<Rightarrow> network \<Rightarrow> string \<Rightarrow> working \<Rightarrow> check_result \<Rightarrow> working" where
  "process_check hostname net context w check =
     (if \<not> ok check then
        (case findReplacementURL hostname net (url check) context of
           Found new \<Rightarrow>
             w\<lparr>modifiedContent := replaceURL (modifiedContent w) (url check) new,
               fixedCount := fixedCount w + 1,
               results := results w @
                 [\<lparr>result_url = url check, result_status = status check, fixed = True, newUrl = Some new\<rparr>]\<rparr>
         | _ \<Rightarrow>
             w\<lparr>results := results w @
                 [\<lparr>result_url = url check, result_status = status check, fixed = False, newUrl = None\<rparr>]\<rparr>)
      else w)"

function process_batches ::
  "url_parser \<Rightarrow> network \<Rightarrow> string \<Rightarrow> string list \<Rightarrow> working \<Rightarrow> working" where
  "process_batches hostname net context urls w =
     (if urls = [] then w
      else process_batches hostname net context (drop MAX_CONCURRENT_CHECKS urls)
             (foldl (process_check hostname net context) w
                (map (checkURL net) (take MAX_CONCURRENT_CHECKS urls))))"
  by pat_completeness auto
termination
  by (relation "measure (\<lambda>(hostname, net, context, urls, w). length urls)")
     (auto simp: MAX_CONCURRENT_CHECKS_def)

text \<open>The three shapes of the object \<^verbatim>\<open>validateArticle\<close> returns.\<close>

datatype article_result =
    NoURLs string
  | Checked string nat "url_result list" nat
  | Failed string message

definition validateArticle ::
  "cheerio \<Rightarrow> url_parser \<Rightarrow> network \<Rightarrow> string \<Rightarrow> process \<Rightarrow> article_result \<times> process" where
  "validateArticle load hostname net filePath st =
     (case readFile (fs st) filePath of
        Inl e \<Rightarrow> (Failed filePath e, st\<lparr>stderr := stderr st @ [ValidateError filePath e]\<rparr>)
      | Inr content \<Rightarrow>
          (let urls = extractURLs load content in
           if length urls = 0 then (NoURLs filePath, st)
           else
             (let w = process_batches hostname net (basename filePath) urls
                        \<lparr>results = [], modifiedContent = content, fixedCount = 0\<rparr>
              in if fixedCount w > 0
                 then (case writeFile (fs st) filePath (modifiedContent w) of
                         Inl e \<Rightarrow>
                           (Failed filePath e, st\<lparr>stderr := stderr st @ [ValidateError filePath e]\<rparr>)
                       | Inr fsys' \<Rightarrow>
                           (Checked filePath (length urls)
                              (filter (\<lambda>r. \<not> fixed r) (results w)) (fixedCount w),
                            st\<lparr>fs := fsys'\<rparr>))
                 else (Checked filePath (length urls)
                         (filter (\<lambda>r. \<not> fixed r) (results w)) (fixedCount w), st))))"


text \<open>
  The totals of \<^verbatim>\<open>validateAllArticles\<close>.  \<^verbatim>\<open>r.urls\<close> is a number in a checked result, the
  empty array in a result without URLs and undefined in a failed one.  The empty array
  is truthy, and adding it to a number or a string concatenates strings, so the running
  sum \<^verbatim>\<open>sum + (r.urls || 0)\<close> is a number or a string.
\<close>

datatype jsval = Num nat | Str string

function decimal :: "nat \<Rightarrow> string" where
  "decimal n =
     (if n < 10 then [''0123456789'' ! n] else decimal (n div 10) @ [''0123456789'' ! (n mod 10)])"
  by pat_completeness auto
termination
  by (relation "measure id") auto

definition ToString :: "jsval \<Rightarrow> string" where
  "ToString v = (case v of Num n \<Rightarrow> decimal n | Str s \<Rightarrow> s)"

definition js_plus :: "jsval \<Rightarrow> nat \<Rightarrow> jsval" where
  "js_plus v n = (case v of Num m \<Rightarrow> Num (m + n) | Str s \<Rightarrow> Str (s @ decimal n))"

fun add_urls :: "jsval \<Rightarrow> article_result \<Rightarrow> jsval" where
  "add_urls acc (NoURLs p) = Str (ToString acc)"
| "add_urls acc (Checked p n broken k) = js_plus acc n"
| "add_urls acc (Failed p e) = js_plus acc 0"

fun broken_length :: "article_result \<Rightarrow> nat" where
  "broken_length (NoURLs p) = 0"
| "broken_length (Checked p n broken k) = length broken"
| "broken_length (Failed p e) = 0"

fun fixed_of :: "article_result \<Rightarrow> nat" where
  "fixed_of (NoURLs p) = 0"
| "fixed_of (Checked p n broken k) = k"
| "fixed_of (Failed p e) = 0"

record summary =
  totalArticles :: nat
  totalUrls :: jsval
  totalBroken :: nat
  totalFixed :: nat
  stillBroken :: int

record report =
  timestamp :: string
  summary_of :: summary
  details :: "article_result list"

definition make_report :: "string \<Rightarrow> nat \<Rightarrow> article_result list \<Rightarrow> report" where
  "make_report time n rs =
     (let tUrls = foldl add_urls (Num 0) rs;
          tBroken = foldl (\<lambda>acc r. acc + broken_length r) 0 rs;
          tFixed = foldl (\<lambda>acc r. acc + fixed_of r) 0 rs
      in \<lparr>timestamp = time,
          summary_of = \<lparr>totalArticles = n, totalUrls = tUrls, totalBroken = tBroken,
                        totalFixed = tFixed, stillBroken = int tBroken - int tFixed\<rparr>,
          details = rs\<rparr>)"

text \<open>The loop of \<^verbatim>\<open>validateAllArticles\<close> over the article files, one after the other.\<close>

fun validate_each ::
  "cheerio \<Rightarrow> url_parser \<Rightarrow> network \<Rightarrow> string list \<Rightarrow> article_result list \<Rightarrow> process
     \<Rightarrow> article_result list \<times> process" where
  "validate_each load hostname net [] rs st = (rs, st)"
| "validate_each load hostname net (file # rest) rs st =
     (case validateArticle load hostname net (path_join_articles file) st of
        (r, st') \<Rightarrow> validate_each load hostname net rest (rs @ [r]) st')"

definition REPORT_PATH :: string where
  "REPORT_PATH = ''./url-validation-report.json''"

text \<open>
  \<^verbatim>\<open>validateAllArticles\<close>.  \<open>time\<close> stands for \<^verbatim>\<open>new Date().toISOString()\<close> and
  \<open>stringify\<close> for \<^verbatim>\<open>JSON.stringify(report, null, 2)\<close>.  \<open>validation_report\<close> is the report
  object the run builds, when it gets that far.
\<close>

definition validation_report ::
  "cheerio \<Rightarrow> url_parser \<Rightarrow> network \<Rightarrow> string \<Rightarrow> process \<Rightarrow> report option" where
  "validation_report load hostname net time st =
     (case readdir (fs st) ARTICLES_DIR of
        Inl e \<Rightarrow> None
      | Inr names \<Rightarrow>
          Some (make_report time (length (htmlFiles_of names))
                  (fst (validate_each load hostname net (htmlFiles_of names) [] st))))"

definition validateAllArticles ::
  "cheerio \<Rightarrow> url_parser \<Rightarrow> network \<Rightarrow> string \<Rightarrow> (report \<Rightarrow> string) \<Rightarrow> process \<Rightarrow> process" where
  "validateAllArticles load hostname net time stringify st =
     (case readdir (fs st) ARTICLES_DIR of
        Inl e \<Rightarrow> st\<lparr>stderr := stderr st @ [FatalError e], exitCode := Some 1\<rparr>
      | Inr names \<Rightarrow>
          (case validate_each load hostname net (htmlFiles_of names) [] st of
             (rs, st1) \<Rightarrow>
               (case writeFile (fs st1) REPORT_PATH
                       (stringify (make_report time (length (htmlFiles_of names)) rs)) of
                  Inl e \<Rightarrow> st1\<lparr>stderr := stderr st1 @ [FatalError e], exitCode := Some 1\<rparr>
                | Inr fsys' \<Rightarrow> st1\<lparr>fs := fsys'\<rparr>)))"


section \<open>Auxiliary definitions and example inputs\<close>

text \<open>What one directory entry contributes to the list of records.\<close>

definition extracted :: "filesystem \<Rightarrow> string \<Rightarrow> ArticleRecord list" where
  "extracted fsys file =
     (case extractMetadataFromHTML fsys (path_join_articles file) of
        Inl e \<Rightarrow> []
      | Inr metadata \<Rightarrow> if id' metadata \<noteq> [] then [metadata] else [])"

definition extracted_id :: "filesystem \<Rightarrow> string \<Rightarrow> string option" where
  "extracted_id fsys file =
     (case extractMetadataFromHTML fsys (path_join_articles file) of
        Inl e \<Rightarrow> None
      | Inr metadata \<Rightarrow> Some (id' metadata))"

definition meta_tag :: "string \<Rightarrow> string \<Rightarrow> string" where
  "meta_tag name v =
     ''<meta name='' @ [dquote] @ name @ [dquote] @ '' content='' @ [dquote] @ v @ [dquote] @ ''>''"

definition img_tag :: "string \<Rightarrow> string" where
  "img_tag src = ''<img src='' @ [dquote] @ src @ [dquote] @ ''>''"

text \<open>A writable disk whose directory \<^verbatim>\<open>./articles\<close> holds the given files, and a fresh process.\<close>

definition disk_of :: "(string \<times> string) list \<Rightarrow> filesystem" where
  "disk_of entries =
     \<lparr>dirs = [ARTICLES_DIR \<mapsto> map fst entries],
      files = map_of (map (\<lambda>(name, content). (path_join_articles name, content)) entries),
      readonly = (\<lambda>p. False),
      journal = []\<rparr>"

definition no_articles_dir :: filesystem where
  "no_articles_dir = \<lparr>dirs = Map.empty, files = Map.empty, readonly = (\<lambda>p. False), journal = []\<rparr>"

definition fresh :: "filesystem \<Rightarrow> process" where
  "fresh fsys = \<lparr>fs = fsys, stderr = [], exitCode = None\<rparr>"

text \<open>The time values of four ISO dates (midnight UTC), as \<^verbatim>\<open>new Date\<close> gives them.\<close>

definition iso_dates :: date_parser where
  "iso_dates =
     [''1970-01-01'' \<mapsto> 0, ''1969-12-31'' \<mapsto> - 86400000,
      ''2025-11-10'' \<mapsto> 1762732800000, ''2025-11-09'' \<mapsto> 1762646400000]"

text \<open>
  One article with one image whose URL does not answer, while the same URL with
  \<^verbatim>\<open>http\<close> in place of \<^verbatim>\<open>https\<close> does.
\<close>

definition dead_link_disk :: filesystem where
  "dead_link_disk = disk_of [(''a.html'', img_tag ''https://dead.example/x.jpg'')]"

definition dead_link_load :: cheerio where
  "dead_link_load html sel = (if sel = Img_src then [''https://dead.example/x.jpg''] else [])"

definition dead_link_net :: network where
  "dead_link_net m u =
     (if u = ''http://dead.example/x.jpg''
      then Inr \<lparr>res_status = 200, res_redirected = False, res_url = u\<rparr>
      else Inl (FetchFailed u))"

text \<open>
  The host names \<^verbatim>\<open>new URL\<close> reads off the URLs of the examples; any other text of the
  examples (such as \<^verbatim>\<open>http://\<close>, a scheme without a host) is not a URL.
\<close>

definition dead_host :: url_parser where
  "dead_host u =
     (case map_of [(''https://dead.example/x.jpg'', ''dead.example''),
                   (''http://dead.example/x.jpg'', ''dead.example''),
                   (''https://www.dead.example/x.jpg'', ''www.dead.example'')] u of
        Some h \<Rightarrow> Inr h
      | None \<Rightarrow> Inl (InvalidURL u))"

text \<open>Two article files that carry the same \<^verbatim>\<open>article-id\<close>.\<close>

definition twins :: filesystem where
  "twins =
     disk_of [(''a.html'', meta_tag ''article-id'' ''a1''),
              (''b.html'', meta_tag ''article-id'' ''a1'')]"

text \<open>The key by which the index is ascending when every date parses.\<close>

definition sort_key_of :: "date_parser \<Rightarrow> ArticleRecord \<Rightarrow> int" where
  "sort_key_of parse r = (case dateOf parse r of Some d \<Rightarrow> - d | None \<Rightarrow> 0)"

text \<open>
  Three article files, the second without an \<^verbatim>\<open>article-id\<close> marker, beside a file that is
  not an article; and two article files of which the first has no date and the second
  a date before 1970.
\<close>

definition three_files :: filesystem where
  "three_files =
     disk_of [(''a.html'', meta_tag ''article-id'' ''a1'' @ meta_tag ''article-date'' ''2025-11-09''),
              (''b.html'', meta_tag ''og:title'' ''No id here''),
              (''c.html'', meta_tag ''article-id'' ''c3'' @ meta_tag ''article-date'' ''2025-11-10''),
              (''notes.txt'', ''not an article'')]"

definition three_names :: "string list" where
  "three_names = [''a.html'', ''b.html'', ''c.html'', ''notes.txt'']"

definition undated :: filesystem where
  "undated =
     disk_of [(''a.html'', meta_tag ''article-id'' ''a1''),
              (''b.html'', meta_tag ''article-id'' ''b2'' @ meta_tag ''article-date'' ''1969-12-31'')]"

text \<open>One article file with an id and an image; a serialiser for runs that never reach it.\<close>

definition one_article :: filesystem where
  "one_article =
     disk_of [(''a.html'',
               meta_tag ''article-id'' ''a1'' @ meta_tag ''og:image'' ''https://img.example/p.png'')]"

definition unused_stringify :: "report \<Rightarrow> string" where
  "unused_stringify r = []"

text \<open>
  Three networks: nothing answers; every request is answered with status 300 (a
  redirection status without a target, which \<^verbatim>\<open>fetch\<close> hands back as the final response);
  every \<^verbatim>\<open>HEAD\<close> request is rejected while \<^verbatim>\<open>GET\<close> is answered with 200.
\<close>

definition all_down :: network where
  "all_down m u = Inl (FetchFailed u)"

definition multiple_choices :: network where
  "multiple_choices m u = Inr \<lparr>res_status = 300, res_redirected = False, res_url = u\<rparr>"

definition head_rejected :: network where
  "head_rejected m u =
     (if m = HEAD then Inl (FetchFailed u)
      else Inr \<lparr>res_status = 200, res_redirected = False, res_url = u\<rparr>)"

text \<open>
  The variations that differ from the original URL, the test that the Liveness Checker
  does not accept a URL, and \<^verbatim>\<open>result.finalUrl || variation\<close> for a variation.
\<close>

definition candidates :: "string \<Rightarrow> string list" where
  "candidates originalUrl = filter (\<lambda>v. v \<noteq> originalUrl) (variations originalUrl)"

definition rejected :: "network \<Rightarrow> string \<Rightarrow> bool" where
  "rejected net v = (\<not> ok (checkURL net v))"

definition resolved :: "network \<Rightarrow> string \<Rightarrow> string" where
  "resolved net v =
     (case finalUrl (checkURL net v) of Some u \<Rightarrow> if u \<noteq> [] then u else v | None \<Rightarrow> v)"

text \<open>
  The watcher at time \<open>t\<close> with exactly one timer pending, set at \<open>t\<close>; and a burst of
  three events for three files within a second and a half.
\<close>

definition armed :: "watcher \<Rightarrow> nat \<Rightarrow> bool" where
  "armed w t = (now w = t \<and> (\<exists>h. pending w = [(h, t + 1000)] \<and> regenerateTimeout w = Some h))"

definition burst :: "(nat \<times> fs_event) list" where
  "burst = [(0, Add ''articles/a.html''), (700, Change ''articles/b.html''), (1400, Add ''articles/c.html'')]"

text \<open>
  The watcher two seconds after a start-up in which one file was announced and \<^verbatim>\<open>ready\<close>
  followed; a later burst of three events; and a serialiser that keeps only the time
  stamp of a report.
\<close>

definition after_startup :: watcher where
  "after_startup = run_until 2000 (deliver [(0, Add ''articles/a.html''), (5, Ready)] startWatcher)"

definition later_burst :: "(nat \<times> fs_event) list" where
  "later_burst =
     [(3000, Add ''articles/b.html''), (3700, Change ''articles/b.html''),
      (4400, Unlink ''articles/a.html'')]"

definition timestamp_only :: "report \<Rightarrow> string" where
  "timestamp_only r = timestamp r"

text \<open>
  The working state in which \<^verbatim>\<open>validateArticle\<close> leaves its loop, and the fixes recorded
  in a \<^verbatim>\<open>results\<close> array applied to a text in order.
\<close>

definition final_working :: "cheerio \<Rightarrow> url_parser \<Rightarrow> network \<Rightarrow> string \<Rightarrow> string \<Rightarrow> working" where
  "final_working load hostname net filePath content =
     process_batches hostname net (basename filePath) (extractURLs load content)
       \<lparr>results = [], modifiedContent = content, fixedCount = 0\<rparr>"

definition apply_fix :: "string \<Rightarrow> url_result \<Rightarrow> string" where
  "apply_fix c r = (case newUrl r of Some new \<Rightarrow> replaceURL c (result_url r) new | None \<Rightarrow> c)"

definition apply_fixes :: "string \<Rightarrow> url_result list \<Rightarrow> string" where
  "apply_fixes content rs = foldl apply_fix content rs"

text \<open>
  What the loop records for one unreachable URL, and the state of the loop after the URLs
  \<open>seen\<close>: one result per unreachable URL in order, each as recorded, the working copy
  being the content with the recorded fixes applied, and the count that of the fixes.
\<close>

definition recorded :: "url_parser \<Rightarrow> network \<Rightarrow> string \<Rightarrow> url_result \<Rightarrow> bool" where
  "recorded hostname net ctx r =
     (result_status r = status (checkURL net (result_url r))
      \<and> (case findReplacementURL hostname net (result_url r) ctx of
            Found new \<Rightarrow> fixed r \<and> newUrl r = Some new
          | NotFound hints \<Rightarrow> \<not> fixed r \<and> newUrl r = None
          | NotFoundError e \<Rightarrow> \<not> fixed r \<and> newUrl r = None))"

definition consistent ::
  "url_parser \<Rightarrow> network \<Rightarrow> string \<Rightarrow> string \<Rightarrow> string list \<Rightarrow> working \<Rightarrow> bool" where
  "consistent hostname net ctx content seen w =
     (map result_url (results w) = filter (rejected net) seen
      \<and> (\<forall>r \<in> set (results w). recorded hostname net ctx r)
      \<and> modifiedContent w = apply_fixes content (results w)
      \<and> fixedCount w = length (filter fixed (results w)))"

text \<open>
  One article with one image whose URL does not answer and for which only the
  web-archive lookup URL answers.
\<close>

definition archive_disk :: filesystem where
  "archive_disk = disk_of [(''a.html'', img_tag ''http://dead.example/x.jpg'')]"

definition archive_load :: cheerio where
  "archive_load html sel = (if sel = Img_src then [''http://dead.example/x.jpg''] else [])"

definition archive_net :: network where
  "archive_net m u =
     (if u = ''https://web.archive.org/web/*/http://dead.example/x.jpg''
      then Inr \<lparr>res_status = 200, res_redirected = False, res_url = u\<rparr>
      else Inl (FetchFailed u))"

section \<open>Properties\<close>

subsection \<open>Case folding on the bits of a character\<close>

text \<open>
  The upper-case letters are the codes 65..90: bit 6 set, bits 7 and 5 clear, and the low
  five bits between 1 and 26.  Folding sets bit 5.  As a code equation this lets the
  functions above run on character literals without arithmetic.
\<close>

lemma to_lower_Char [code]:
  "to_lower (Char b0 b1 b2 b3 b4 b5 b6 b7) =
     (if \<not> b7 \<and> b6 \<and> \<not> b5 \<and> (b0 \<or> b1 \<or> b2 \<or> b3 \<or> b4) \<and> \<not> (b4 \<and> b3 \<and> (b2 \<or> (b1 \<and> b0)))
      then Char b0 b1 b2 b3 b4 True b6 b7 else Char b0 b1 b2 b3 b4 b5 b6 b7)"
  apply (cases b7; cases b6; cases b5; cases b4; cases b3; cases b2; cases b1; cases b0)
  apply (simp_all add: to_lower_def char_of_def bit_Suc_0_iff)
  done

lemma is_control_Char [code]:
  "is_control (Char b0 b1 b2 b3 b4 b5 b6 b7) = (\<not> b5 \<and> \<not> b6 \<and> \<not> b7)"
  apply (cases b7; cases b6; cases b5; cases b4; cases b3; cases b2; cases b1; cases b0)
  apply (simp_all add: is_control_def)
  done

subsection \<open>Shared facts about the scan and the sort\<close>

lemma scan_articles_fst:
  "fst (scan_articles fsys names acc errs) = acc @ concat (map (extracted fsys) names)"
  by (induction names arbitrary: acc errs) (auto simp: extracted_def split: sum.splits)

lemma set_sort_insert: "set (sort_insert f x ys) = insert x (set ys)"
  by (induction ys) auto

lemma set_Array_sort: "set (Array_sort f xs) = set xs"
  by (induction xs) (auto simp: Array_sort_def set_sort_insert)

lemma count_sort_insert:
  "length (filter P (sort_insert f x ys)) = length (filter P (x # ys))"
  by (induction ys) auto

lemma count_Array_sort: "length (filter P (Array_sort f xs)) = length (filter P xs)"
  by (induction xs) (auto simp: Array_sort_def count_sort_insert)

lemma metadata_of_images: "thumbnailImage (metadata_of p c) = bannerImage (metadata_of p c)"
  by (simp add: metadata_of_def)

lemma extracted_images: "r \<in> set (extracted fsys file) \<Longrightarrow> thumbnailImage r = bannerImage r"
  by (auto simp: extracted_def extractMetadataFromHTML_def metadata_of_images
      split: sum.splits if_splits)

lemma extracted_nonempty_id: "r \<in> set (extracted fsys file) \<Longrightarrow> id' r \<noteq> []"
  by (auto simp: extracted_def split: sum.splits if_splits)

subsection \<open>Report totals of the Reconciler\<close>

text \<open>
  C1.  The claim: over a file with exactly one embedded URL that is unreachable and for
  which a replacement is found, the report counts 1 URL checked, 1 broken and 1 fixed,
  and 0 still broken.  The run below is such a run; its report counts 1 checked,
  0 broken, 1 fixed and -1 still broken, because the \<^verbatim>\<open>broken\<close> array of a file keeps
  only the results that were not fixed.
\<close>

theorem fixed_url_dropped_from_broken:
  "validation_report dead_link_load dead_host dead_link_net ''2025-11-10T00:00:00.000Z''
     (fresh dead_link_disk)
   = Some \<lparr>timestamp = ''2025-11-10T00:00:00.000Z'',
           summary_of = \<lparr>totalArticles = 1, totalUrls = Num 1, totalBroken = 0,
                         totalFixed = 1, stillBroken = - 1\<rparr>,
           details = [Checked ''articles/a.html'' 1 [] 1]\<rparr>"
  by code_simp

subsection \<open>Image fields of a record\<close>

text \<open>
  C10.  In every record the Metadata Extractor produces, and so in every record of the
  index, \<open>thumbnailImage\<close> equals \<open>bannerImage\<close>: both are read from the \<^verbatim>\<open>og:image\<close> marker.
\<close>

theorem thumbnail_is_banner:
  "(extractMetadataFromHTML fsys filePath = Inr r \<longrightarrow> thumbnailImage r = bannerImage r)
   \<and> (\<forall>a \<in> set (index_records parse fsys names). thumbnailImage a = bannerImage a)"
  by (auto simp: index_records_def set_Array_sort scan_articles_fst extractMetadataFromHTML_def
        metadata_of_images split: sum.splits dest: extracted_images)

theorem thumbnail_is_banner_witness:
  "map thumbnailImage
     (index_records iso_dates
        one_article
        [''a.html''])
     = [''https://img.example/p.png'']
   \<and> map bannerImage
     (index_records iso_dates
        one_article
        [''a.html''])
     = [''https://img.example/p.png'']"
proof -
  let ?idx = "index_records iso_dates
        one_article
        [''a.html'']"
  have t: "map thumbnailImage ?idx = [''https://img.example/p.png'']"
    by code_simp
  have "\<forall>a \<in> set ?idx. thumbnailImage a = bannerImage a"
    using thumbnail_is_banner by blast
  then have "map thumbnailImage ?idx = map bannerImage ?idx"
    by simp
  with t show ?thesis
    by simp
qed

subsection \<open>Completeness of the index\<close>

lemma count_extracted:
  "i \<noteq> [] \<Longrightarrow>
   length (filter (\<lambda>r. id' r = i) (concat (map (extracted fsys) hs)))
     = length (filter (\<lambda>f. extracted_id fsys f = Some i) hs)"
  by (induction hs) (auto simp: extracted_def extracted_id_def split: sum.splits)

lemma filter_unique:
  "distinct hs \<Longrightarrow> f \<in> set hs \<Longrightarrow> \<forall>g \<in> set hs. P g \<longleftrightarrow> g = f \<Longrightarrow> length (filter P hs) = 1"
proof (induction hs)
  case Nil
  then show ?case by simp
next
  case (Cons h hs)
  show ?case
  proof (cases "h = f")
    case True
    with Cons.prems have "\<forall>g \<in> set hs. \<not> P g" by auto
    then have "filter P hs = []" by (simp add: filter_empty_conv)
    with True Cons.prems show ?thesis by simp
  next
    case False
    with Cons show ?thesis by auto
  qed
qed

text \<open>
  C7 as claimed: for every article file with a non-empty extracted id the index holds
  exactly one record with that id.  It fails when two files carry the same id: both
  records are kept.
\<close>

theorem shared_id_gives_two_records:
  "dirs twins ARTICLES_DIR = Some [''a.html'', ''b.html'']
   \<and> extracted_id twins ''a.html'' = Some ''a1''
   \<and> length (filter (\<lambda>r. id' r = ''a1'') (index_records iso_dates twins [''a.html'', ''b.html''])) = 2"
  by code_simp

text \<open>
  C7, amended.  The index holds one record for each article file with a non-empty
  extracted id: the number of records with a given non-empty id is the number of article
  files carrying that id, which is exactly one when no other file of the directory
  carries it.  No record has an empty id, so files without an id and files whose
  extraction failed contribute nothing.
\<close>

theorem one_record_per_file:
  "(i \<noteq> [] \<longrightarrow>
      length (filter (\<lambda>r. id' r = i) (index_records parse fsys names))
        = length (filter (\<lambda>f. extracted_id fsys f = Some i) (htmlFiles_of names)))
   \<and> (\<forall>r \<in> set (index_records parse fsys names). id' r \<noteq> [])
   \<and> (i \<noteq> [] \<and> distinct (htmlFiles_of names) \<and> f \<in> set (htmlFiles_of names)
        \<and> extracted_id fsys f = Some i
        \<and> (\<forall>g \<in> set (htmlFiles_of names). extracted_id fsys g = Some i \<longrightarrow> g = f)
      \<longrightarrow> length (filter (\<lambda>r. id' r = i) (index_records parse fsys names)) = 1)"
proof (intro conjI impI)
  assume "i \<noteq> []"
  then show "length (filter (\<lambda>r. id' r = i) (index_records parse fsys names))
        = length (filter (\<lambda>f. extracted_id fsys f = Some i) (htmlFiles_of names))"
    by (simp add: index_records_def count_Array_sort scan_articles_fst count_extracted)
next
  show "\<forall>r \<in> set (index_records parse fsys names). id' r \<noteq> []"
    by (auto simp: index_records_def set_Array_sort scan_articles_fst dest: extracted_nonempty_id)
next
  assume a: "i \<noteq> [] \<and> distinct (htmlFiles_of names) \<and> f \<in> set (htmlFiles_of names)
        \<and> extracted_id fsys f = Some i
        \<and> (\<forall>g \<in> set (htmlFiles_of names). extracted_id fsys g = Some i \<longrightarrow> g = f)"
  then have "\<forall>g \<in> set (htmlFiles_of names). (extracted_id fsys g = Some i) \<longleftrightarrow> g = f"
    by auto
  with a have "length (filter (\<lambda>f. extracted_id fsys f = Some i) (htmlFiles_of names)) = 1"
    using filter_unique[of "htmlFiles_of names" f "\<lambda>g. extracted_id fsys g = Some i"] by blast
  with a show "length (filter (\<lambda>r. id' r = i) (index_records parse fsys names)) = 1"
    by (simp add: index_records_def count_Array_sort scan_articles_fst count_extracted)
qed

theorem one_record_per_file_witness:
  "length (filter (\<lambda>r. id' r = ''a1'') (index_records iso_dates three_files three_names)) = 1
   \<and> length (index_records iso_dates three_files three_names) = 2"
proof -
  have h: "''a1'' \<noteq> [] \<and> distinct (htmlFiles_of three_names) \<and> ''a.html'' \<in> set (htmlFiles_of three_names)
        \<and> extracted_id three_files ''a.html'' = Some ''a1''
        \<and> (\<forall>g \<in> set (htmlFiles_of three_names). extracted_id three_files g = Some ''a1'' \<longrightarrow> g = ''a.html'')"
    by code_simp
  have n: "length (index_records iso_dates three_files three_names) = 2"
    by code_simp
  from h n one_record_per_file[of "''a1''" iso_dates three_files three_names "''a.html''"]
  show ?thesis by blast
qed

subsection \<open>Order of the index\<close>

lemma sort_insert_insort:
  "dateOf parse x \<noteq> None \<Longrightarrow> \<forall>y \<in> set ys. dateOf parse y \<noteq> None \<Longrightarrow>
   sort_insert (newest_first parse) x ys = insort_key (sort_key_of parse) x ys"
  by (induction ys) (auto simp: SortCompare_def newest_first_def sort_key_of_def)

lemma Array_sort_sort_key:
  "\<forall>y \<in> set xs. dateOf parse y \<noteq> None \<Longrightarrow>
   Array_sort (newest_first parse) xs = sort_key (sort_key_of parse) xs"
  unfolding Array_sort_def sort_key_def
  by (induction xs) (auto simp: sort_insert_insort simp flip: sort_key_def)

text \<open>
  C2 as claimed: a record whose \<open>publishDate\<close> is missing sorts as the oldest possible
  date, after every record with a parsable date.  It fails: a missing date is read as
  1970-01-01, so the record without a date stays before a record dated 1969-12-31.
\<close>

theorem missing_date_before_older_date:
  "dirs undated ARTICLES_DIR = Some [''a.html'', ''b.html'']
   \<and> map publishDate (index_records iso_dates undated [''a.html'', ''b.html'']) = [[], ''1969-12-31'']
   \<and> iso_dates ''1969-12-31'' = Some (- 86400000)"
  by code_simp

text \<open>
  C2, amended.  When the \<open>publishDate\<close> of every record is empty or parses, with an empty
  one read as 1970-01-01: if the date of A is later than the date of B then A appears
  before B in the index, and records of equal date keep their scan order.  So a record
  without a date sorts as 1970-01-01, not as the oldest possible date.
\<close>

theorem newest_first_index:
  assumes "\<forall>r \<in> set (index_records parse fsys names). dateOf parse r \<noteq> None"
  shows "(\<forall>i j a b. i < length (index_records parse fsys names) \<and> j < length (index_records parse fsys names)
            \<and> dateOf parse (index_records parse fsys names ! i) = Some a
            \<and> dateOf parse (index_records parse fsys names ! j) = Some b \<and> b < a \<longrightarrow> i < j)
       \<and> (\<forall>d. filter (\<lambda>r. dateOf parse r = d) (index_records parse fsys names)
              = filter (\<lambda>r. dateOf parse r = d) (fst (scan_articles fsys (htmlFiles_of names) [] [])))
       \<and> (\<forall>r \<in> set (index_records parse fsys names). publishDate r = [] \<longrightarrow> dateOf parse r = parse ''1970-01-01'')"
proof -
  let ?xs = "fst (scan_articles fsys (htmlFiles_of names) [] [])"
  let ?idx = "index_records parse fsys names"
  have all: "\<forall>r \<in> set ?xs. dateOf parse r \<noteq> None"
    using assms by (simp add: index_records_def set_Array_sort)
  then have eq: "?idx = sort_key (sort_key_of parse) ?xs"
    by (simp add: index_records_def Array_sort_sort_key)
  have srt: "sorted (map (sort_key_of parse) ?idx)"
    by (simp add: eq)
  have order: "i < j" if h: "i < length ?idx" "j < length ?idx"
      "dateOf parse (?idx ! i) = Some a" "dateOf parse (?idx ! j) = Some b" "b < a" for i j a b
  proof (rule ccontr)
    assume "\<not> i < j"
    then have "j \<le> i" by simp
    with srt h(1) have "map (sort_key_of parse) ?idx ! j \<le> map (sort_key_of parse) ?idx ! i"
      by (simp add: sorted_iff_nth_mono)
    with h show False by (simp add: sort_key_of_def)
  qed
  have stable: "filter (\<lambda>r. dateOf parse r = d) ?idx = filter (\<lambda>r. dateOf parse r = d) ?xs" for d
  proof (cases d)
    case None
    have "filter (\<lambda>r. dateOf parse r = None) ?idx = []"
      using assms by (simp add: filter_empty_conv)
    moreover have "filter (\<lambda>r. dateOf parse r = None) ?xs = []"
      using all by (simp add: filter_empty_conv)
    ultimately show ?thesis using None by simp
  next
    case (Some v)
    have k: "(dateOf parse r = Some v) = (sort_key_of parse r = - v)" if "dateOf parse r \<noteq> None" for r
      using that by (auto simp: sort_key_of_def)
    have "filter (\<lambda>r. dateOf parse r = Some v) ?idx = filter (\<lambda>r. sort_key_of parse r = - v) ?idx"
      using assms k by (intro filter_cong) auto
    also have "\<dots> = filter (\<lambda>r. sort_key_of parse r = - v) ?xs"
      by (simp add: eq sort_key_stable)
    also have "\<dots> = filter (\<lambda>r. dateOf parse r = Some v) ?xs"
      using all k by (intro filter_cong) auto
    finally show ?thesis using Some by simp
  qed
  have epoch: "\<forall>r \<in> set ?idx. publishDate r = [] \<longrightarrow> dateOf parse r = parse ''1970-01-01''"
    by (simp add: dateOf_def)
  from order stable epoch show ?thesis by blast
qed

theorem newest_first_index_witness:
  "map publishDate (fst (scan_articles three_files (htmlFiles_of three_names) [] []))
       = [''2025-11-09'', ''2025-11-10'']
   \<and> map publishDate (index_records iso_dates three_files three_names)
       = [''2025-11-10'', ''2025-11-09'']
   \<and> (\<forall>d. filter (\<lambda>r. dateOf iso_dates r = d) (index_records iso_dates three_files three_names)
          = filter (\<lambda>r. dateOf iso_dates r = d)
              (fst (scan_articles three_files (htmlFiles_of three_names) [] [])))"
proof -
  have h: "\<forall>r \<in> set (index_records iso_dates three_files three_names). dateOf iso_dates r \<noteq> None"
    by code_simp
  have s: "map publishDate (fst (scan_articles three_files (htmlFiles_of three_names) [] []))
       = [''2025-11-09'', ''2025-11-10'']"
    by code_simp
  have i: "map publishDate (index_records iso_dates three_files three_names)
       = [''2025-11-10'', ''2025-11-09'']"
    by code_simp
  from h s i newest_first_index[OF h] show ?thesis by blast
qed

subsection \<open>Rebuilding twice\<close>

lemma extract_after_write:
  "extractMetadataFromHTML (fsys\<lparr>files := (files fsys)(ARTICLES_JSON_PATH \<mapsto> c), journal := j\<rparr>)
      (path_join_articles file)
     = extractMetadataFromHTML fsys (path_join_articles file)"
  by (simp add: extractMetadataFromHTML_def readFile_def ARTICLES_JSON_PATH_def path_join_articles_def)

lemma scan_after_write:
  "scan_articles (fsys\<lparr>files := (files fsys)(ARTICLES_JSON_PATH \<mapsto> c), journal := j\<rparr>) hs acc errs
     = scan_articles fsys hs acc errs"
  by (induction hs arbitrary: acc errs) (simp_all add: extract_after_write split: sum.splits)

lemma index_after_write:
  "index_records parse (fsys\<lparr>files := (files fsys)(ARTICLES_JSON_PATH \<mapsto> c), journal := j\<rparr>) names
     = index_records parse fsys names"
  by (simp add: index_records_def scan_after_write)

text \<open>
  C8.  Running the Index Builder a second time over the unchanged directory leaves every
  file as the first run left it, the index among them, and the second run writes exactly
  what the first run wrote: the index is outside \<^verbatim>\<open>./articles\<close> and is not read by the
  build.
\<close>

theorem rebuild_idempotent:
  "files (fs (regenerateArticlesJSON parse stringify (regenerateArticlesJSON parse stringify st)))
     = files (fs (regenerateArticlesJSON parse stringify st))
   \<and> journal (fs (regenerateArticlesJSON parse stringify (regenerateArticlesJSON parse stringify st)))
     = journal (fs (regenerateArticlesJSON parse stringify st))
         @ drop (length (journal (fs st))) (journal (fs (regenerateArticlesJSON parse stringify st)))"
proof (cases "readdir (fs st) ARTICLES_DIR")
  case (Inl e)
  then show ?thesis by (simp add: regenerateArticlesJSON_def)
next
  case (Inr names)
  show ?thesis
  proof (cases "readonly (fs st) ARTICLES_JSON_PATH")
    case True
    with Inr show ?thesis
      by (simp add: regenerateArticlesJSON_def writeFile_def Let_def)
  next
    case False
    with Inr show ?thesis
      by (simp add: regenerateArticlesJSON_def writeFile_def Let_def readdir_def
          index_after_write scan_after_write)
  qed
qed

theorem rebuild_idempotent_witness:
  "files (fs (regenerateArticlesJSON iso_dates JSON_stringify_articles
               (regenerateArticlesJSON iso_dates JSON_stringify_articles (fresh one_article))))
     = files (fs (regenerateArticlesJSON iso_dates JSON_stringify_articles (fresh one_article)))
   \<and> map fst (journal (fs (regenerateArticlesJSON iso_dates JSON_stringify_articles (fresh one_article))))
     = [''./articles.json'']"
proof -
  have "map fst (journal (fs (regenerateArticlesJSON iso_dates JSON_stringify_articles (fresh one_article))))
     = [''./articles.json'']"
    by code_simp
  with rebuild_idempotent[of iso_dates JSON_stringify_articles "fresh one_article"]
  show ?thesis by blast
qed

subsection \<open>An unreadable articles directory\<close>

text \<open>
  C3 as claimed: a run of the Index Builder that cannot read the articles directory
  terminates the process with a non-zero exit status.  It fails: the regeneration logs
  the cause and returns, and the process has no exit status afterwards.
\<close>

theorem regeneration_does_not_exit:
  "readdir (fs (fresh no_articles_dir)) ARTICLES_DIR = Inl (ReaddirFailed ''./articles'')
   \<and> exitCode (regenerateArticlesJSON iso_dates JSON_stringify_articles (fresh no_articles_dir)) = None
   \<and> stderr (regenerateArticlesJSON iso_dates JSON_stringify_articles (fresh no_articles_dir))
       = [RegenerateError (ReaddirFailed ''./articles'')]"
  by code_simp

text \<open>
  C3, amended.  When the articles directory cannot be read, a Reconciler run logs the
  cause, terminates the process with exit status 1 and writes nothing (no report); an
  Index Builder regeneration logs the cause and writes nothing (no index), and leaves
  the process running with its exit status untouched.
\<close>

theorem unreadable_directory:
  assumes "readdir (fs st) ARTICLES_DIR = Inl e"
  shows "exitCode (validateAllArticles load hostname net time stringify_report st) = Some 1
       \<and> stderr (validateAllArticles load hostname net time stringify_report st) = stderr st @ [FatalError e]
       \<and> fs (validateAllArticles load hostname net time stringify_report st) = fs st
       \<and> exitCode (regenerateArticlesJSON parse stringify st) = exitCode st
       \<and> stderr (regenerateArticlesJSON parse stringify st) = stderr st @ [RegenerateError e]
       \<and> fs (regenerateArticlesJSON parse stringify st) = fs st"
  using assms by (simp add: validateAllArticles_def regenerateArticlesJSON_def)

theorem unreadable_directory_witness:
  "exitCode (validateAllArticles dead_link_load dead_host dead_link_net ''2025-11-10T00:00:00.000Z''
               unused_stringify (fresh no_articles_dir)) = Some 1
   \<and> stderr (validateAllArticles dead_link_load dead_host dead_link_net ''2025-11-10T00:00:00.000Z''
               unused_stringify (fresh no_articles_dir)) = [FatalError (ReaddirFailed ''./articles'')]
   \<and> fs (validateAllArticles dead_link_load dead_host dead_link_net ''2025-11-10T00:00:00.000Z''
               unused_stringify (fresh no_articles_dir)) = no_articles_dir
   \<and> fs (regenerateArticlesJSON iso_dates JSON_stringify_articles (fresh no_articles_dir)) = no_articles_dir"
proof -
  have h: "readdir (fs (fresh no_articles_dir)) ARTICLES_DIR = Inl (ReaddirFailed ''./articles'')"
    by (simp add: readdir_def fresh_def no_articles_dir_def ARTICLES_DIR_def)
  from unreadable_directory[OF h, of dead_link_load dead_host dead_link_net
      "''2025-11-10T00:00:00.000Z''" unused_stringify iso_dates JSON_stringify_articles]
  show ?thesis by (simp add: fresh_def)
qed

subsection \<open>Liveness Checker\<close>

text \<open>
  C5 as claimed: a probe result is classified reachable exactly when the final status
  after redirects is in the 2xx/3xx range.  It fails: a final status 300 is classified
  unreachable.
\<close>

theorem status_300_is_unreachable:
  "status (checkURL multiple_choices ''https://example.org/a'') = 300
   \<and> ok (checkURL multiple_choices ''https://example.org/a'') = False"
  by code_simp

text \<open>
  C5, amended.  The GET probe is issued exactly when the HEAD probe itself is rejected,
  never because of the status HEAD returned; the result is classified reachable exactly
  when a probe completed (HEAD, or GET after a rejected HEAD) and the final status after
  redirects is in the 2xx range; when both probes are rejected the URL is unreachable,
  with status 0.
\<close>

theorem liveness_probes:
  "fst (checkURL_traced net u) = (if isl (net HEAD u) then [HEAD, GET] else [HEAD])
   \<and> (ok (checkURL net u) \<longleftrightarrow>
        (\<exists>r. (net HEAD u = Inr r \<or> (isl (net HEAD u) \<and> net GET u = Inr r))
             \<and> 200 \<le> res_status r \<and> res_status r < 300))
   \<and> (isl (net HEAD u) \<and> isl (net GET u) \<longrightarrow> \<not> ok (checkURL net u) \<and> status (checkURL net u) = 0)"
  by (auto simp: checkURL_def checkURL_traced_def from_response_def response_ok_def isl_def
      split: sum.splits)

theorem liveness_probes_witness:
  "fst (checkURL_traced all_down ''https://example.org/a'') = [HEAD, GET]
   \<and> \<not> ok (checkURL all_down ''https://example.org/a'')
   \<and> status (checkURL all_down ''https://example.org/a'') = 0
   \<and> fst (checkURL_traced head_rejected ''https://example.org/a'') = [HEAD, GET]
   \<and> ok (checkURL head_rejected ''https://example.org/a'')
   \<and> fst (checkURL_traced multiple_choices ''https://example.org/a'') = [HEAD]"
proof -
  have a: "isl (all_down HEAD ''https://example.org/a'') \<and> isl (all_down GET ''https://example.org/a'')"
    by (simp add: all_down_def)
  have b: "isl (head_rejected HEAD ''https://example.org/a'')
      \<and> head_rejected GET ''https://example.org/a'' = Inr \<lparr>res_status = 200, res_redirected = False, res_url = ''https://example.org/a''\<rparr>"
    by (simp add: head_rejected_def)
  have c: "\<not> isl (multiple_choices HEAD ''https://example.org/a'')"
    by (simp add: multiple_choices_def)
  from a liveness_probes[of all_down "''https://example.org/a''"]
  have 1: "fst (checkURL_traced all_down ''https://example.org/a'') = [HEAD, GET]
     \<and> \<not> ok (checkURL all_down ''https://example.org/a'')
     \<and> status (checkURL all_down ''https://example.org/a'') = 0"
    by (auto simp: all_down_def)
  from b liveness_probes[of head_rejected "''https://example.org/a''"]
  have 2: "fst (checkURL_traced head_rejected ''https://example.org/a'') = [HEAD, GET]
   \<and> ok (checkURL head_rejected ''https://example.org/a'')"
    by auto
  from c liveness_probes[of multiple_choices "''https://example.org/a''"]
  have 3: "fst (checkURL_traced multiple_choices ''https://example.org/a'') = [HEAD]"
    by simp
  from 1 2 3 show ?thesis by blast
qed

subsection \<open>Replacement Finder\<close>

lemma try_variations_tried:
  "fst (try_variations net u vs)
     = takeWhile (rejected net) (filter (\<lambda>v. v \<noteq> u) vs)
       @ take 1 (dropWhile (rejected net) (filter (\<lambda>v. v \<noteq> u) vs))"
  by (induction vs) (auto simp: Let_def rejected_def)

lemma try_variations_result:
  "snd (try_variations net u vs)
     = (case dropWhile (rejected net) (filter (\<lambda>v. v \<noteq> u) vs) of
          [] \<Rightarrow> None
        | v # rest \<Rightarrow> Some (resolved net v))"
  by (induction vs) (auto simp: Let_def rejected_def resolved_def)

lemma variations_https_www:
  "variations (''https://www.'' @ rest)
     = [''http://www.'' @ rest, ''https://'' @ rest, ''https://www.www.'' @ rest,
        ''https://web.archive.org/web/*/https://www.'' @ rest]"
  by (simp add: variations_def)

text \<open>
  C6 as claimed: when no candidate succeeds the Replacement Finder reports no
  replacement together with exactly two hint URLs.  It fails for an unreachable URL that
  \<^verbatim>\<open>new URL\<close> does not accept, such as \<^verbatim>\<open>http://\<close>: no candidate is tried and the report
  carries the error and no hints.
\<close>

theorem invalid_url_gets_no_hints:
  "is_http ''http://'' \<and> ok (checkURL all_down ''http://'') = False
   \<and> findReplacementURL_traced dead_host all_down ''http://'' ''a.html''
       = ([], NotFoundError (InvalidURL ''http://''))"
  by code_simp

text \<open>
  C6, amended.  Given an unreachable URL that parses as a URL, the Replacement Finder
  tries, in this fixed order and leaving out any that equals the original: the URL with
  its first \<^verbatim>\<open>https://\<close> replaced by \<^verbatim>\<open>http://\<close>, the URL with its first \<^verbatim>\<open>www.\<close> removed, the
  URL with its scheme prefix replaced by \<^verbatim>\<open>https://www.\<close>, and the web-archive lookup URL;
  for a URL \<^verbatim>\<open>https://www.REST\<close> these are the scheme swap, the removal of the leading
  \<^verbatim>\<open>www.\<close> label, the addition of a leading \<^verbatim>\<open>www.\<close> label and the archive lookup.  It
  stops at the first candidate the Liveness Checker accepts and returns the final URL
  that candidate resolved to (the candidate itself when that is empty); when none is
  accepted it reports no replacement with exactly two hints, a search-engine query and a
  web-archive lookup.  Given a URL that does not parse, it tries nothing and reports no
  replacement with the error and no hints.
\<close>

theorem replacement_order:
  "(hostname u = Inr domain \<longrightarrow>
      fst (findReplacementURL_traced hostname net u context)
        = takeWhile (rejected net) (candidates u) @ take 1 (dropWhile (rejected net) (candidates u))
      \<and> findReplacementURL hostname net u context
        = (case dropWhile (rejected net) (candidates u) of
             [] \<Rightarrow> NotFound [''Search Google: https://www.google.com/search?q=''
                                @ encodeURIComponent (domain @ '' '' @ context),
                             ''Archive: https://web.archive.org/web/*/'' @ u]
           | v # rest \<Rightarrow> Found (resolved net v)))
   \<and> (hostname u = Inl e \<longrightarrow>
        findReplacementURL_traced hostname net u context = ([], NotFoundError e))
   \<and> candidates (''https://www.'' @ rest)
        = [''http://www.'' @ rest, ''https://'' @ rest, ''https://www.www.'' @ rest,
           ''https://web.archive.org/web/*/https://www.'' @ rest]"
proof (intro conjI impI)
  assume h: "hostname u = Inr domain"
  obtain tried res where t: "try_variations net u (variations u) = (tried, res)"
    by (cases "try_variations net u (variations u)")
  from t have tr: "tried = takeWhile (rejected net) (candidates u) @ take 1 (dropWhile (rejected net) (candidates u))"
    using try_variations_tried[of net u "variations u"] by (simp add: candidates_def)
  from t have rs: "res = (case dropWhile (rejected net) (candidates u) of [] \<Rightarrow> None | v # rest \<Rightarrow> Some (resolved net v))"
    using try_variations_result[of net u "variations u"] by (simp add: candidates_def)
  from h t tr show "fst (findReplacementURL_traced hostname net u context)
        = takeWhile (rejected net) (candidates u) @ take 1 (dropWhile (rejected net) (candidates u))"
    by (cases res) (simp_all add: findReplacementURL_traced_def)
  show "findReplacementURL hostname net u context
        = (case dropWhile (rejected net) (candidates u) of
             [] \<Rightarrow> NotFound [''Search Google: https://www.google.com/search?q=''
                                @ encodeURIComponent (domain @ '' '' @ context),
                             ''Archive: https://web.archive.org/web/*/'' @ u]
           | v # rest \<Rightarrow> Found (resolved net v))"
  proof (cases "dropWhile (rejected net) (candidates u)")
    case Nil
    with rs have "res = None" by (simp del: dropWhile_eq_Nil_conv)
    with h t show ?thesis
      unfolding Nil by (simp add: findReplacementURL_def findReplacementURL_traced_def)
  next
    case (Cons v rest)
    with rs have "res = Some (resolved net v)" by simp
    with h t show ?thesis
      unfolding Cons by (simp add: findReplacementURL_def findReplacementURL_traced_def)
  qed
next
  assume "hostname u = Inl e"
  then show "findReplacementURL_traced hostname net u context = ([], NotFoundError e)"
    by (simp add: findReplacementURL_traced_def)
next
  show "candidates (''https://www.'' @ rest)
        = [''http://www.'' @ rest, ''https://'' @ rest, ''https://www.www.'' @ rest,
           ''https://web.archive.org/web/*/https://www.'' @ rest]"
  proof -
    have n: "''www.'' @ rest \<noteq> rest"
      by (auto dest: arg_cong[where f = length])
    then have n': "rest \<noteq> ''www.'' @ rest"
      by (rule not_sym)
    show ?thesis
      unfolding candidates_def variations_https_www using n n' by simp
  qed
qed
lemma rejected_all_down: "rejected all_down = (\<lambda>v. True)"
  by (simp add: rejected_def checkURL_def checkURL_traced_def all_down_def fun_eq_iff)

theorem replacement_order_witness:
  "fst (findReplacementURL_traced dead_host all_down ''https://www.dead.example/x.jpg'' ''a.html'')
     = [''http://www.dead.example/x.jpg'', ''https://dead.example/x.jpg'',
        ''https://www.www.dead.example/x.jpg'',
        ''https://web.archive.org/web/*/https://www.dead.example/x.jpg'']
   \<and> findReplacementURL dead_host all_down ''https://www.dead.example/x.jpg'' ''a.html''
     = NotFound [''Search Google: https://www.google.com/search?q=www.dead.example%20a.html'',
                 ''Archive: https://web.archive.org/web/*/https://www.dead.example/x.jpg'']"
proof -
  have h: "dead_host ''https://www.dead.example/x.jpg'' = Inr ''www.dead.example''"
    by (simp add: dead_host_def)
  have e: "encodeURIComponent (''www.dead.example'' @ '' '' @ ''a.html'') = ''www.dead.example%20a.html''"
    by code_simp
  have u: "''https://www.dead.example/x.jpg'' = ''https://www.'' @ ''dead.example/x.jpg''"
    by simp
  note t = replacement_order[of dead_host "''https://www.dead.example/x.jpg''" "''www.dead.example''"
      all_down "''a.html''" "InvalidURL []" "''dead.example/x.jpg''"]
  from t have c: "candidates ''https://www.dead.example/x.jpg''
     = [''http://www.dead.example/x.jpg'', ''https://dead.example/x.jpg'',
        ''https://www.www.dead.example/x.jpg'',
        ''https://web.archive.org/web/*/https://www.dead.example/x.jpg'']"
    by simp
  from t h have "fst (findReplacementURL_traced dead_host all_down ''https://www.dead.example/x.jpg'' ''a.html'')
        = takeWhile (rejected all_down) (candidates ''https://www.dead.example/x.jpg'')
          @ take 1 (dropWhile (rejected all_down) (candidates ''https://www.dead.example/x.jpg''))"
    by blast
  then have 1: "fst (findReplacementURL_traced dead_host all_down ''https://www.dead.example/x.jpg'' ''a.html'')
     = [''http://www.dead.example/x.jpg'', ''https://dead.example/x.jpg'',
        ''https://www.www.dead.example/x.jpg'',
        ''https://web.archive.org/web/*/https://www.dead.example/x.jpg'']"
    unfolding c rejected_all_down by simp
  from t h have "findReplacementURL dead_host all_down ''https://www.dead.example/x.jpg'' ''a.html''
        = (case dropWhile (rejected all_down) (candidates ''https://www.dead.example/x.jpg'') of
             [] \<Rightarrow> NotFound [''Search Google: https://www.google.com/search?q=''
                                @ encodeURIComponent (''www.dead.example'' @ '' '' @ ''a.html''),
                             ''Archive: https://web.archive.org/web/*/'' @ ''https://www.dead.example/x.jpg'']
           | v # rest \<Rightarrow> Found (resolved all_down v))"
    by blast
  then have 2: "findReplacementURL dead_host all_down ''https://www.dead.example/x.jpg'' ''a.html''
     = NotFound [''Search Google: https://www.google.com/search?q=www.dead.example%20a.html'',
                 ''Archive: https://web.archive.org/web/*/https://www.dead.example/x.jpg'']"
    unfolding c rejected_all_down e by simp
  from 1 2 show ?thesis by blast
qed

subsection \<open>Debounce\<close>

lemma schedule_armed:
  "pending w = [] \<or> (\<exists>h. pending w = [(h, d)] \<and> regenerateTimeout w = Some h) \<Longrightarrow>
   armed (scheduleRegeneration w) (now w) \<and> rebuilds (scheduleRegeneration w) = rebuilds w"
  by (auto simp: armed_def scheduleRegeneration_def setTimeout_def clearTimeout_def split: option.splits)

lemma step_armed:
  assumes "armed w t0" "t0 \<le> t" "t < t0 + 1000" "qualifying e"
  shows "armed (on_event e (run_until t w)) t \<and> rebuilds (on_event e (run_until t w)) = rebuilds w"
proof -
  from assms(1) obtain h where p: "pending w = [(h, t0 + 1000)]" "regenerateTimeout w = Some h" "now w = t0"
    by (auto simp: armed_def)
  let ?w = "run_until t w"
  from p assms(2,3) have r: "pending ?w = [(h, t0 + 1000)]" "regenerateTimeout ?w = Some h"
      "now ?w = t" "rebuilds ?w = rebuilds w"
    by (simp_all add: run_until_def max_def)
  then have "armed (scheduleRegeneration ?w) t \<and> rebuilds (scheduleRegeneration ?w) = rebuilds w"
    using schedule_armed[of ?w "t0 + 1000"] by simp
  with assms(4) show ?thesis
    by (cases e) simp_all
qed

lemma deliver_armed:
  "armed w t0 \<Longrightarrow> \<forall>e \<in> set es. qualifying (snd e) \<Longrightarrow> within_window (t0 # map fst es) \<Longrightarrow>
   armed (deliver es w) (last (t0 # map fst es)) \<and> rebuilds (deliver es w) = rebuilds w"
proof (induction es arbitrary: w t0)
  case Nil
  then show ?case by simp
next
  case (Cons x es)
  obtain t e where x: "x = (t, e)" by (cases x)
  from Cons.prems x have s: "armed (on_event e (run_until t w)) t
      \<and> rebuilds (on_event e (run_until t w)) = rebuilds w"
    using step_armed[of w t0 t e] by simp
  from Cons.prems x have "within_window (t # map fst es)" by simp
  with Cons.IH[of "on_event e (run_until t w)" t] s Cons.prems x
  show ?case by simp
qed

text \<open>
  C9.  For every sequence of one or more qualifying change events, each arriving less
  than the debounce window (1000 ms) after the one before, received by a watcher in any
  state in which no timer is pending (at start-up or after earlier rebuilds): exactly
  one rebuild is added, and it fires when the window has elapsed from the last event;
  before that time no rebuild has been added, from that time on exactly one has.
\<close>

theorem debounce:
  assumes "pending w = []" "now w \<le> fst (hd es)"
    and "es \<noteq> []" "\<forall>e \<in> set es. qualifying (snd e)" "within_window (map fst es)"
  shows "rebuilds (run_until T (deliver es w))
           = rebuilds w @ (if fst (last es) + 1000 \<le> T then [fst (last es) + 1000] else [])"
proof -
  from assms(3) obtain t e rest where es: "es = (t, e) # rest"
    by (cases es) auto
  let ?w = "on_event e (run_until t w)"
  from assms(1,2) es have "pending (run_until t w) = []" "now (run_until t w) = t"
       "rebuilds (run_until t w) = rebuilds w"
    by (simp_all add: run_until_def max_def)
  then have "armed (scheduleRegeneration (run_until t w)) t
      \<and> rebuilds (scheduleRegeneration (run_until t w)) = rebuilds w"
    using schedule_armed[of "run_until t w" 0] by simp
  with assms(4) es have a: "armed ?w t \<and> rebuilds ?w = rebuilds w"
    by (cases e) simp_all
  from assms es have "armed (deliver rest ?w) (last (t # map fst rest))
      \<and> rebuilds (deliver rest ?w) = rebuilds ?w"
    using deliver_armed[of ?w t rest] a by simp
  moreover have "last (t # map fst rest) = fst (last es)"
    using es by (simp add: last_map)
  ultimately have "armed (deliver es w) (fst (last es))" "rebuilds (deliver es w) = rebuilds w"
    using es a by simp_all
  then show ?thesis
    by (auto simp: armed_def run_until_def)
qed

theorem debounce_witness:
  "rebuilds (run_until 2399 (deliver burst startWatcher)) = []
   \<and> rebuilds (run_until 5000 (deliver burst startWatcher)) = [2400]
   \<and> rebuilds after_startup = [5, 1000]
   \<and> rebuilds (run_until 5399 (deliver later_burst after_startup)) = [5, 1000]
   \<and> rebuilds (run_until 6000 (deliver later_burst after_startup)) = [5, 1000, 5400]"
proof -
  have h1: "burst \<noteq> []"
    by (simp add: burst_def)
  have h2: "\<forall>e \<in> set burst. qualifying (snd e)"
    by code_simp
  have h3: "within_window (map fst burst)"
    by (simp add: burst_def)
  have h0: "pending startWatcher = []" "now startWatcher \<le> fst (hd burst)"
    by (simp_all add: startWatcher_def burst_def)
  have l: "fst (last burst) = 1400" "rebuilds startWatcher = []"
    by (simp_all add: burst_def startWatcher_def)
  have g1: "later_burst \<noteq> []"
    by (simp add: later_burst_def)
  have g2: "\<forall>e \<in> set later_burst. qualifying (snd e)"
    by code_simp
  have g3: "within_window (map fst later_burst)"
    by (simp add: later_burst_def)
  have g0: "pending after_startup = []"
    by code_simp
  have g0': "now after_startup \<le> fst (hd later_burst)"
    by code_simp
  have m: "fst (last later_burst) = 4400"
    by (simp add: later_burst_def)
  have r: "rebuilds after_startup = [5, 1000]"
    by code_simp
  from debounce[OF h0 h1 h2 h3, of 2399] debounce[OF h0 h1 h2 h3, of 5000] l
    debounce[OF g0 g0' g1 g2 g3, of 5399] debounce[OF g0 g0' g1 g2 g3, of 6000] m r
  show ?thesis
    by simp
qed

subsection \<open>Replacement in the file\<close>

declare split_from.simps [simp del] replace_global.simps [simp del] process_batches.simps [simp del]

lemma literal_pattern_nonsyntax:
  "\<not> syntax_char c \<Longrightarrow> literal_pattern (c # rest) = map_option ((#) c) (literal_pattern rest)"
  by (cases rest) (auto simp: syntax_char_def)

lemma literal_pattern_escaped:
  "syntax_char c \<Longrightarrow> literal_pattern (backslash # c # rest) = map_option ((#) c) (literal_pattern rest)"
  by simp

lemma literal_pattern_escape: "literal_pattern (escapeRegExp s) = Some s"
proof (induction s)
  case Nil
  then show ?case by (simp add: escapeRegExp_def)
next
  case (Cons c s)
  have "escapeRegExp (c # s) = (if syntax_char c then [backslash, c] else [c]) @ escapeRegExp s"
    by (simp add: escapeRegExp_def)
  with Cons show ?case
    by (simp add: literal_pattern_nonsyntax literal_pattern_escaped del: literal_pattern.simps)
qed

lemma replaceURL_literal: "replaceURL html old new = replace_global old new [] html"
  by (simp add: replaceURL_def literal_pattern_escape)

lemma GetSubstitution_plain:
  "CHR ''$'' \<notin> set new \<Longrightarrow> GetSubstitution m b a new = new"
  by (induction m b a new rule: GetSubstitution.induct) auto
lemma split_from_match:
  "old \<noteq> [] \<Longrightarrow> prefix old rest \<Longrightarrow>
   split_from old piece rest = piece # split_from old [] (drop (length old) rest)"
  by (subst split_from.simps) simp

lemma split_from_Nil: "split_from old piece [] = [piece]"
  by (subst split_from.simps) auto

lemma split_from_step:
  "\<not> (old \<noteq> [] \<and> prefix old (c # cs)) \<Longrightarrow>
   split_from old piece (c # cs) = split_from old (piece @ [c]) cs"
  by (subst split_from.simps) auto

lemma replace_global_match:
  "old \<noteq> [] \<Longrightarrow> prefix old rest \<Longrightarrow>
   replace_global old new b rest
     = GetSubstitution old b (drop (length old) rest) new
       @ replace_global old new (b @ old) (drop (length old) rest)"
  by (subst replace_global.simps) simp

lemma replace_global_Nil: "old \<noteq> [] \<Longrightarrow> replace_global old new b [] = []"
  by (subst replace_global.simps) simp

lemma replace_global_step:
  "old \<noteq> [] \<Longrightarrow> \<not> prefix old (c # cs) \<Longrightarrow>
   replace_global old new b (c # cs) = c # replace_global old new (b @ [c]) cs"
  by (subst replace_global.simps) simp

lemma split_from_nonempty: "split_from sep piece rest \<noteq> []"
proof (induction sep piece rest rule: split_from.induct)
  case (1 sep piece rest)
  show ?case
  proof (cases "sep \<noteq> [] \<and> prefix sep rest")
    case True
    then show ?thesis by (simp add: split_from_match)
  next
    case False
    with 1(2) show ?thesis
      by (cases rest) (simp_all add: split_from_Nil split_from_step)
  qed
qed

lemma join_str_Cons: "ps \<noteq> [] \<Longrightarrow> join_str sep (p # ps) = p @ sep @ join_str sep ps"
  by (cases ps) auto

lemma replace_is_join:
  "old \<noteq> [] \<Longrightarrow> CHR ''$'' \<notin> set new \<Longrightarrow>
   piece @ replace_global old new b rest = join_str new (split_from old piece rest)"
proof (induction old piece rest arbitrary: b rule: split_from.induct)
  case (1 old piece rest)
  show ?case
  proof (cases "prefix old rest")
    case True
    with 1(1)[of "b @ old"] 1(3,4) show ?thesis
      by (simp add: split_from_match replace_global_match GetSubstitution_plain
          join_str_Cons split_from_nonempty)
  next
    case False
    show ?thesis
    proof (cases rest)
      case Nil
      with 1(3) show ?thesis by (simp add: split_from_Nil replace_global_Nil)
    next
      case (Cons c cs)
      with False 1(2)[of c cs "b @ [c]"] 1(3,4) show ?thesis
        by (simp add: split_from_step replace_global_step)
    qed
  qed
qed

lemma join_split:
  "old \<noteq> [] \<Longrightarrow> join_str old (split_from old piece rest) = piece @ rest"
proof (induction old piece rest rule: split_from.induct)
  case (1 old piece rest)
  show ?case
  proof (cases "prefix old rest")
    case True
    then obtain zs where z: "rest = old @ zs" by (auto simp: prefix_def)
    with True 1(1) 1(3) show ?thesis
      by (simp add: split_from_match join_str_Cons split_from_nonempty)
  next
    case False
    show ?thesis
    proof (cases rest)
      case Nil
      then show ?thesis by (simp add: split_from_Nil)
    next
      case (Cons c cs)
      with False 1(2)[of c cs] 1(3) show ?thesis
        by (simp add: split_from_step)
    qed
  qed
qed

lemma pieces_free:
  "old \<noteq> [] \<Longrightarrow> \<forall>k < length piece. \<not> prefix old (drop k (piece @ rest)) \<Longrightarrow>
   \<forall>p \<in> set (split_from old piece rest). \<not> sublist old p"
proof (induction old piece rest rule: split_from.induct)
  case (1 old piece rest)
  have here: "\<not> sublist old piece"
  proof
    assume "sublist old piece"
    then obtain ps ss where p: "piece = ps @ old @ ss" by (auto simp: sublist_def)
    with 1(3) have "length ps < length piece" by (cases old) auto
    with 1(4) have "\<not> prefix old (drop (length ps) (piece @ rest))" by blast
    with p show False by simp
  qed
  show ?case
  proof (cases "prefix old rest")
    case True
    with 1(1) 1(3) here show ?thesis
      by (simp add: split_from_match)
  next
    case False
    show ?thesis
    proof (cases rest)
      case Nil
      with here show ?thesis by (simp add: split_from_Nil)
    next
      case (Cons c cs)
      have "\<forall>k < length (piece @ [c]). \<not> prefix old (drop k ((piece @ [c]) @ cs))"
      proof (intro allI impI)
        fix k assume k: "k < length (piece @ [c])"
        show "\<not> prefix old (drop k ((piece @ [c]) @ cs))"
        proof (cases "k < length piece")
          case True
          with 1(4) Cons show ?thesis by simp
        next
          case False
          with k have "k = length piece" by simp
          with \<open>\<not> prefix old rest\<close> Cons show ?thesis by simp
        qed
      qed
      with False Cons 1(2)[of c cs] 1(3) show ?thesis
        by (simp add: split_from_step)
    qed
  qed
qed


lemma single_piece:
  "old \<noteq> [] \<Longrightarrow> \<not> sublist old (piece @ rest) \<Longrightarrow> split_from old piece rest = [piece @ rest]"
proof (induction old piece rest rule: split_from.induct)
  case (1 old piece rest)
  show ?case
  proof (cases "prefix old rest")
    case True
    then obtain zs where "rest = old @ zs" by (auto simp: prefix_def)
    then have "sublist old (piece @ rest)" by (auto simp: sublist_def)
    with 1(4) show ?thesis by simp
  next
    case False
    show ?thesis
    proof (cases rest)
      case Nil
      then show ?thesis by (simp add: split_from_Nil)
    next
      case (Cons c cs)
      with False 1(2)[of c cs] 1(3,4) show ?thesis
        by (simp add: split_from_step)
    qed
  qed
qed

lemma two_pieces:
  assumes "old \<noteq> []" "sublist old html"
  shows "\<exists>p q ps. split_from old [] html = p # q # ps"
proof (rule ccontr)
  assume n: "\<not> (\<exists>p q ps. split_from old [] html = p # q # ps)"
  obtain p where p: "split_from old [] html = [p]"
    using n split_from_nonempty[of old "[]" html]
    by (cases "split_from old [] html"; cases "tl (split_from old [] html)") auto
  with join_split[OF assms(1), of "[]" html] have "p = html" by simp
  moreover from pieces_free[OF assms(1), of "[]" html] p have "\<not> sublist old p" by simp
  ultimately show False using assms(2) by simp
qed
lemma checkURL_url: "url (checkURL net u) = u"
  by (simp add: checkURL_def checkURL_traced_def from_response_def split: sum.splits)

lemma process_check_consistent:
  "consistent hostname net ctx content seen w \<Longrightarrow>
   consistent hostname net ctx content (seen @ [u]) (process_check hostname net ctx w (checkURL net u))"
  by (auto simp: consistent_def recorded_def process_check_def apply_fixes_def apply_fix_def
      rejected_def checkURL_url split: replacement.splits)

lemma foldl_consistent:
  "consistent hostname net ctx content seen w \<Longrightarrow>
   consistent hostname net ctx content (seen @ us)
     (foldl (process_check hostname net ctx) w (map (checkURL net) us))"
proof (induction us arbitrary: seen w)
  case Nil
  then show ?case by simp
next
  case (Cons u us)
  from Cons.IH[OF process_check_consistent[OF Cons.prems, of u]]
  show ?case by simp
qed

lemma process_batches_consistent:
  "consistent hostname net ctx content seen w \<Longrightarrow>
   consistent hostname net ctx content (seen @ urls) (process_batches hostname net ctx urls w)"
proof (induction hostname net ctx urls w arbitrary: seen rule: process_batches.induct)
  case (1 hostname net ctx urls w)
  show ?case
  proof (cases "urls = []")
    case True
    with 1(2) show ?thesis by (subst process_batches.simps) simp
  next
    case False
    have "consistent hostname net ctx content (seen @ take MAX_CONCURRENT_CHECKS urls)
            (foldl (process_check hostname net ctx) w (map (checkURL net) (take MAX_CONCURRENT_CHECKS urls)))"
      using 1(2) by (rule foldl_consistent)
    from 1(1)[OF False this] False show ?thesis
      by (subst process_batches.simps) simp
  qed
qed

lemma final_working_consistent:
  "consistent hostname net (basename p) content (extractURLs load content)
     (final_working load hostname net p content)"
proof -
  have "consistent hostname net (basename p) content []
          \<lparr>results = [], modifiedContent = content, fixedCount = 0\<rparr>"
    by (simp add: consistent_def apply_fixes_def)
  from process_batches_consistent[OF this, of "extractURLs load content"]
  show ?thesis by (simp add: final_working_def)
qed

lemma validateArticle_journal:
  "journal (fs (snd (validateArticle load hostname net p st)))
     = journal (fs st) @
       (case readFile (fs st) p of
          Inl e \<Rightarrow> []
        | Inr content \<Rightarrow>
            if extractURLs load content \<noteq> []
               \<and> 0 < fixedCount (final_working load hostname net p content)
               \<and> \<not> readonly (fs st) p
            then [(p, modifiedContent (final_working load hostname net p content))]
            else [])"
  by (auto simp: validateArticle_def final_working_def Let_def writeFile_def split: sum.splits)

lemma validateArticle_writes:
  "\<exists>J. journal (fs (snd (validateArticle load hostname net p st))) = journal (fs st) @ J
       \<and> (J = [] \<or> (\<exists>c. J = [(p, c)]))"
  by (auto simp: validateArticle_journal split: sum.splits)

lemma validate_each_writes:
  "\<exists>J. journal (fs (snd (validate_each load hostname net names rs st))) = journal (fs st) @ J
       \<and> set (map fst J) \<subseteq> path_join_articles ` set names
       \<and> (distinct names \<longrightarrow> distinct (map fst J))"
proof (induction names arbitrary: rs st)
  case Nil
  then show ?case by simp
next
  case (Cons f names)
  obtain r st' where v: "validateArticle load hostname net (path_join_articles f) st = (r, st')"
    by (cases "validateArticle load hostname net (path_join_articles f) st")
  from validateArticle_writes[of load hostname net "path_join_articles f" st] v
  obtain J1 where j1: "journal (fs st') = journal (fs st) @ J1"
      "J1 = [] \<or> (\<exists>c. J1 = [(path_join_articles f, c)])"
    by auto
  from Cons.IH[of "rs @ [r]" st']
  obtain J2 where j2: "journal (fs (snd (validate_each load hostname net names (rs @ [r]) st'))) = journal (fs st') @ J2"
      "set (map fst J2) \<subseteq> path_join_articles ` set names"
      "distinct names \<longrightarrow> distinct (map fst J2)"
    by auto
  have inj: "path_join_articles f \<notin> path_join_articles ` set names" if "f \<notin> set names"
    using that by (auto simp: path_join_articles_def)
  have "set (map fst (J1 @ J2)) \<subseteq> path_join_articles ` set (f # names)"
    using j1(2) j2(2) by auto
  moreover have "distinct (f # names) \<longrightarrow> distinct (map fst (J1 @ J2))"
    using j1(2) j2(2,3) inj by auto
  ultimately show ?case
    using v j1(1) j2(1) by (intro exI[of _ "J1 @ J2"]) simp
qed

lemma one_write_per_file:
  assumes "readdir (fs st) ARTICLES_DIR = Inr names" "distinct names"
  shows "\<exists>J. journal (fs (validateAllArticles load hostname net time stringify st)) = journal (fs st) @ J
            \<and> distinct (map fst J)"
proof -
  let ?hs = "htmlFiles_of names"
  obtain rs st1 where v: "validate_each load hostname net ?hs [] st = (rs, st1)"
    by (cases "validate_each load hostname net ?hs [] st")
  have "distinct ?hs"
    using assms(2) by (simp add: htmlFiles_of_def)
  with validate_each_writes[of load hostname net ?hs "[]" st] v
  obtain J where j: "journal (fs st1) = journal (fs st) @ J"
      "set (map fst J) \<subseteq> path_join_articles ` set ?hs" "distinct (map fst J)"
    by auto
  have "REPORT_PATH \<notin> path_join_articles ` set ?hs"
    by (auto simp: REPORT_PATH_def path_join_articles_def)
  with j(2) have nr: "REPORT_PATH \<notin> set (map fst J)"
    by blast
  show ?thesis
  proof (cases "readonly (fs st1) REPORT_PATH")
    case True
    with assms(1) v j show ?thesis
      by (intro exI[of _ J]) (simp add: validateAllArticles_def writeFile_def)
  next
    case False
    with assms(1) v j nr show ?thesis
      by (intro exI[of _ "J @ [(REPORT_PATH, stringify (make_report time (length ?hs) rs))]"])
         (simp add: validateAllArticles_def writeFile_def)
  qed
qed

text \<open>
  C4 as claimed: for every URL marked as fixed, the file content persisted at the end of
  the run contains no occurrence of the old URL.  It fails when the replacement is the
  web-archive lookup URL, which ends with the old URL: the persisted content contains
  the old URL inside the replacement.
\<close>

theorem archive_replacement_keeps_old_url:
  "fst (validateArticle archive_load dead_host archive_net ''articles/a.html'' (fresh archive_disk))
     = Checked ''articles/a.html'' 1 [] 1
   \<and> files (fs (snd (validateArticle archive_load dead_host archive_net ''articles/a.html''
                        (fresh archive_disk))))
       ''articles/a.html''
     = Some (img_tag ''https://web.archive.org/web/*/http://dead.example/x.jpg'')
   \<and> sublist ''http://dead.example/x.jpg''
       (img_tag ''https://web.archive.org/web/*/http://dead.example/x.jpg'')"
  by code_simp

text \<open>
  C4, amended.  In a run over a directory, each file is written at most once, and a file
  is written after all its URLs have been resolved, with the final working copy, and
  only if some URL was fixed.  The loop records one result per unreachable URL; a URL is
  marked as fixed exactly when the Replacement Finder found a replacement, which the
  result then carries.  The working copy is the original content with the recorded
  replacements applied in order, each by a global textual substitution on the working
  copy of that moment: for a replacement without \<^verbatim>\<open>$\<close>, the text is cut at every
  occurrence of the old URL and joined with the replacement, none of the pieces kept
  contains the old URL, the result contains the replacement when the old URL occurred
  and is unchanged when it did not.  (The old URL can therefore remain only where
  inserted replacement text brings it back.)
\<close>

theorem fixes_are_global_substitutions:
  "journal (fs (snd (validateArticle load hostname net p st)))
     = journal (fs st) @
       (case readFile (fs st) p of
          Inl e \<Rightarrow> []
        | Inr content \<Rightarrow>
            if extractURLs load content \<noteq> []
               \<and> 0 < fixedCount (final_working load hostname net p content)
               \<and> \<not> readonly (fs st) p
            then [(p, modifiedContent (final_working load hostname net p content))]
            else [])
   \<and> (readdir (fs st) ARTICLES_DIR = Inr names \<and> distinct names \<longrightarrow>
        (\<exists>J. journal (fs (validateAllArticles load hostname net time stringify st)) = journal (fs st) @ J
             \<and> distinct (map fst J)))
   \<and> map result_url (results (final_working load hostname net p content))
       = filter (rejected net) (extractURLs load content)
   \<and> (\<forall>r \<in> set (results (final_working load hostname net p content)).
         case findReplacementURL hostname net (result_url r) (basename p) of
           Found new \<Rightarrow> fixed r \<and> newUrl r = Some new
         | NotFound hints \<Rightarrow> \<not> fixed r \<and> newUrl r = None
         | NotFoundError e \<Rightarrow> \<not> fixed r \<and> newUrl r = None)
   \<and> modifiedContent (final_working load hostname net p content)
       = foldl (\<lambda>c r. case newUrl r of Some new \<Rightarrow> replaceURL c (result_url r) new | None \<Rightarrow> c)
           content (results (final_working load hostname net p content))
   \<and> fixedCount (final_working load hostname net p content)
       = length (filter fixed (results (final_working load hostname net p content)))
   \<and> (old \<noteq> [] \<and> CHR ''$'' \<notin> set new \<longrightarrow>
        replaceURL html old new = global_substitution html old new
        \<and> join_str old (split_str html old) = html
        \<and> (\<forall>piece \<in> set (split_str html old). \<not> sublist old piece)
        \<and> (sublist old html \<longrightarrow> sublist new (replaceURL html old new))
        \<and> (\<not> sublist old html \<longrightarrow> replaceURL html old new = html))"
proof -
  let ?W = "final_working load hostname net p content"
  note c = final_working_consistent[of hostname net p content load]
  have 1: "journal (fs (snd (validateArticle load hostname net p st)))
     = journal (fs st) @
       (case readFile (fs st) p of
          Inl e \<Rightarrow> []
        | Inr content \<Rightarrow>
            if extractURLs load content \<noteq> []
               \<and> 0 < fixedCount (final_working load hostname net p content)
               \<and> \<not> readonly (fs st) p
            then [(p, modifiedContent (final_working load hostname net p content))]
            else [])"
    by (rule validateArticle_journal)
  have 2: "readdir (fs st) ARTICLES_DIR = Inr names \<and> distinct names \<longrightarrow>
        (\<exists>J. journal (fs (validateAllArticles load hostname net time stringify st)) = journal (fs st) @ J
             \<and> distinct (map fst J))"
    using one_write_per_file[of st names load hostname net time stringify] by blast
  have 3: "map result_url (results ?W) = filter (rejected net) (extractURLs load content)"
    using c by (simp add: consistent_def)
  have 4: "\<forall>r \<in> set (results ?W).
         case findReplacementURL hostname net (result_url r) (basename p) of
           Found new \<Rightarrow> fixed r \<and> newUrl r = Some new
         | NotFound hints \<Rightarrow> \<not> fixed r \<and> newUrl r = None
         | NotFoundError e \<Rightarrow> \<not> fixed r \<and> newUrl r = None"
    using c by (simp add: consistent_def recorded_def)
  have 5: "modifiedContent ?W
       = foldl (\<lambda>c r. case newUrl r of Some new \<Rightarrow> replaceURL c (result_url r) new | None \<Rightarrow> c)
           content (results ?W)"
  proof -
    have "apply_fix = (\<lambda>c r. case newUrl r of Some new \<Rightarrow> replaceURL c (result_url r) new | None \<Rightarrow> c)"
      by (simp add: apply_fix_def fun_eq_iff)
    with c show ?thesis by (simp add: consistent_def apply_fixes_def)
  qed
  have 6: "fixedCount ?W = length (filter fixed (results ?W))"
    using c by (simp add: consistent_def)
  have 7: "old \<noteq> [] \<and> CHR ''$'' \<notin> set new \<longrightarrow>
        replaceURL html old new = global_substitution html old new
        \<and> join_str old (split_str html old) = html
        \<and> (\<forall>piece \<in> set (split_str html old). \<not> sublist old piece)
        \<and> (sublist old html \<longrightarrow> sublist new (replaceURL html old new))
        \<and> (\<not> sublist old html \<longrightarrow> replaceURL html old new = html)"
  proof (intro impI conjI)
    assume h: "old \<noteq> [] \<and> CHR ''$'' \<notin> set new"
    then have o: "old \<noteq> []" and d: "CHR ''$'' \<notin> set new" by simp_all
    show a: "replaceURL html old new = global_substitution html old new"
      using replace_is_join[OF o d, of "[]" "[]" html]
      by (simp add: replaceURL_literal global_substitution_def split_str_def)
    show "join_str old (split_str html old) = html"
      using join_split[OF o, of "[]" html] by (simp add: split_str_def)
    show "\<forall>piece \<in> set (split_str html old). \<not> sublist old piece"
      using pieces_free[OF o, of "[]" html] by (simp add: split_str_def)
    show "sublist new (replaceURL html old new)" if "sublist old html"
    proof -
      from two_pieces[OF o that] obtain x y zs where "split_from old [] html = x # y # zs"
        by blast
      then have "replaceURL html old new = x @ new @ join_str new (y # zs)"
        using a by (simp add: global_substitution_def split_str_def)
      then show ?thesis
        by (auto simp: sublist_def)
    qed
    show "replaceURL html old new = html" if "\<not> sublist old html"
      using a single_piece[OF o, of "[]" html] that
      by (simp add: global_substitution_def split_str_def)
  qed
  from 1 2 3 4 5 6 7 show ?thesis by blast
qed

theorem fixes_are_global_substitutions_witness:
  "journal (fs (snd (validateArticle dead_link_load dead_host dead_link_net ''articles/a.html''
                       (fresh dead_link_disk))))
     = [(''articles/a.html'', img_tag ''http://dead.example/x.jpg'')]
   \<and> map fst (journal (fs (validateAllArticles dead_link_load dead_host dead_link_net
                              ''2025-11-10T00:00:00.000Z'' timestamp_only (fresh dead_link_disk))))
     = [''articles/a.html'', ''./url-validation-report.json'']
   \<and> map newUrl (results (final_working dead_link_load dead_host dead_link_net ''articles/a.html''
                              (img_tag ''https://dead.example/x.jpg'')))
     = [Some ''http://dead.example/x.jpg'']
   \<and> map fixed (results (final_working dead_link_load dead_host dead_link_net ''articles/a.html''
                              (img_tag ''https://dead.example/x.jpg'')))
     = [True]
   \<and> split_str (img_tag ''https://dead.example/x.jpg'') ''https://dead.example/x.jpg''
     = [''<img src='' @ [dquote], [dquote] @ ''>'']
   \<and> replaceURL (img_tag ''https://dead.example/x.jpg'') ''https://dead.example/x.jpg''
         ''http://dead.example/x.jpg''
     = global_substitution (img_tag ''https://dead.example/x.jpg'') ''https://dead.example/x.jpg''
         ''http://dead.example/x.jpg''
   \<and> sublist ''http://dead.example/x.jpg''
       (replaceURL (img_tag ''https://dead.example/x.jpg'') ''https://dead.example/x.jpg''
          ''http://dead.example/x.jpg'')"
proof -
  have j: "journal (fs (snd (validateArticle dead_link_load dead_host dead_link_net ''articles/a.html''
                       (fresh dead_link_disk))))
     = [(''articles/a.html'', img_tag ''http://dead.example/x.jpg'')]"
    by code_simp
  have a: "map fst (journal (fs (validateAllArticles dead_link_load dead_host dead_link_net
                              ''2025-11-10T00:00:00.000Z'' timestamp_only (fresh dead_link_disk))))
     = [''articles/a.html'', ''./url-validation-report.json'']"
    by code_simp
  have n: "map newUrl (results (final_working dead_link_load dead_host dead_link_net ''articles/a.html''
                              (img_tag ''https://dead.example/x.jpg'')))
     = [Some ''http://dead.example/x.jpg'']"
    by code_simp
  have f: "map fixed (results (final_working dead_link_load dead_host dead_link_net ''articles/a.html''
                              (img_tag ''https://dead.example/x.jpg'')))
     = [True]"
    by code_simp
  have s: "split_str (img_tag ''https://dead.example/x.jpg'') ''https://dead.example/x.jpg''
     = [''<img src='' @ [dquote], [dquote] @ ''>'']"
    by code_simp
  have h: "''https://dead.example/x.jpg'' \<noteq> [] \<and> CHR ''$'' \<notin> set ''http://dead.example/x.jpg''"
    by simp
  have o: "sublist ''https://dead.example/x.jpg'' (img_tag ''https://dead.example/x.jpg'')"
    by code_simp
  from h o fixes_are_global_substitutions[of dead_link_load dead_host dead_link_net
      "''articles/a.html''" "fresh dead_link_disk" "[''a.html'']" "''2025-11-10T00:00:00.000Z''"
      timestamp_only "img_tag ''https://dead.example/x.jpg''"
      "''https://dead.example/x.jpg''" "''http://dead.example/x.jpg''"
      "img_tag ''https://dead.example/x.jpg''"]
  have "replaceURL (img_tag ''https://dead.example/x.jpg'') ''https://dead.example/x.jpg''
         ''http://dead.example/x.jpg''
     = global_substitution (img_tag ''https://dead.example/x.jpg'') ''https://dead.example/x.jpg''
         ''http://dead.example/x.jpg''
   \<and> sublist ''http://dead.example/x.jpg''
       (replaceURL (img_tag ''https://dead.example/x.jpg'') ''https://dead.example/x.jpg''
          ''http://dead.example/x.jpg'')"
    by blast
  with j a n f s show ?thesis by blast
qed

end
